theory Spec2Isabelle
  imports
    Complex_Main
    "HOL-Library.AList"
    "HOL-Library.Char_ord"
    "HOL-Library.List_Lexorder"
    "HOL-Library.Multiset"
    "HOL-Library.Product_Lexorder"
begin

section \<open>Data model (types.ts)\<close>

text \<open>
  The string enums of \<^verbatim>\<open>types.ts\<close> are datatypes; the function \<open>X_value\<close> gives the
  string each member stands for at run time, which is what the code compares with string
  literals and uses as object keys. A \<open>char\<close> is a byte, so the en dash of the budget
  ranges is written as its three UTF-8 bytes; equality of strings is not affected.
\<close>

datatype Stage = Stage_New | Stage_Contacted | Stage_Qualified | Stage_Proposal | Stage_Won | Stage_Lost

datatype Status = Status_Open | Status_Won | Status_Lost | Status_OnHold

datatype Source = Source_Website | Source_Referral | Source_LinkedIn | Source_Event | Source_ColdCall

datatype BudgetRange = Below1L | OneToFiveL | FiveToTenL | Above10L

datatype ActivityType = Call | Email | Meeting | WhatsApp | Demo

datatype ActivityOutcome = Interested | FollowUpRequired | NoResponse | NotInterested

fun Stage_value :: "Stage \<Rightarrow> string" where
  "Stage_value Stage_New = ''New''"
| "Stage_value Stage_Contacted = ''Contacted''"
| "Stage_value Stage_Qualified = ''Qualified''"
| "Stage_value Stage_Proposal = ''Proposal''"
| "Stage_value Stage_Won = ''Won''"
| "Stage_value Stage_Lost = ''Lost''"

fun Source_value :: "Source \<Rightarrow> string" where
  "Source_value Source_Website = ''Website''"
| "Source_value Source_Referral = ''Referral''"
| "Source_value Source_LinkedIn = ''LinkedIn''"
| "Source_value Source_Event = ''Event''"
| "Source_value Source_ColdCall = ''Cold Call''"

definition en_dash :: string where
  "en_dash = [CHR 0xE2, CHR 0x80, CHR 0x93]"

fun BudgetRange_value :: "BudgetRange \<Rightarrow> string" where
  "BudgetRange_value Below1L = ''<1L''"
| "BudgetRange_value OneToFiveL = ''1'' @ en_dash @ ''5L''"
| "BudgetRange_value FiveToTenL = ''5'' @ en_dash @ ''10L''"
| "BudgetRange_value Above10L = ''>10L''"

fun ActivityOutcome_value :: "ActivityOutcome \<Rightarrow> string" where
  "ActivityOutcome_value Interested = ''Interested''"
| "ActivityOutcome_value FollowUpRequired = ''Follow-up Required''"
| "ActivityOutcome_value NoResponse = ''No Response''"
| "ActivityOutcome_value NotInterested = ''Not Interested''"

text \<open>
  A JavaScript \<open>number\<close> is an IEEE double: a finite value, which is a rational, one of
  the two infinities, or NaN. The sign of a zero is not kept (\<open>-0\<close> and \<open>0\<close> are equal
  for \<open>===\<close> too). Every arithmetic operation gives the exact result rounded to the
  nearest double, ties to the even significand (\<open>dbl\<close>: 53-bit significands, exponents
  below the normal range keep the smallest one), and an infinity when the rounded result
  is beyond the largest double. Counts of leads are natural numbers: they stay far below
  \<open>2 ^ 53\<close>, where every integer is a double and \<open>+ 1\<close> is exact.
\<close>

datatype number = Finite rat | PosInfinity | NegInfinity | NaN

definition pow2 :: "int \<Rightarrow> rat" where
  "pow2 e = (if 0 \<le> e then 2 ^ nat e else 1 / 2 ^ nat (- e))"

function bit_length :: "int \<Rightarrow> int" where
  "bit_length n = (if n \<le> 0 then 0 else 1 + bit_length (n div 2))"
  by pat_completeness auto
termination
  by (relation "measure nat") auto

declare bit_length.simps [simp del]

definition binary_exponent :: "rat \<Rightarrow> int" where
  "binary_exponent a =
     (let (p, q) = quotient_of a;
          e = bit_length p - bit_length q
      in if pow2 e \<le> a then e else e - 1)"

definition round_half_even :: "rat \<Rightarrow> int" where
  "round_half_even x =
     (let f = \<lfloor>x\<rfloor>; d = x - of_int f
      in if d < 1 / 2 then f else if 1 / 2 < d then f + 1 else if even f then f else f + 1)"

definition dbl :: "rat \<Rightarrow> rat" where
  "dbl x =
     (if x = 0 then 0
      else let a = \<bar>x\<bar>;
               u = pow2 (max (binary_exponent a) (- 1022) - 52)
           in sgn x * of_int (round_half_even (a / u)) * u)"

text \<open>The bound of the doubles, \<open>2 ^ 1024\<close>, written out.\<close>

definition double_limit :: rat where
  "double_limit =
     179769313486231590772930519078902473361797697894230657273430081157732675805500963132708477322407536021120113879871393357658789768814416622492847430639474124377767893424865485276302219601246094119453082952085005768838150682342462881473913110540827237163350510684586298239947245938479716304835356329624224137216"

definition round_number :: "rat \<Rightarrow> number" where
  "round_number x =
     (let r = dbl x
      in if double_limit \<le> r then PosInfinity
         else if r \<le> - double_limit then NegInfinity
         else Finite r)"

fun is_negative :: "number \<Rightarrow> bool" where
  "is_negative (Finite x) = (x < 0)"
| "is_negative NegInfinity = True"
| "is_negative PosInfinity = False"
| "is_negative NaN = False"

fun is_finite :: "number \<Rightarrow> bool" where
  "is_finite (Finite x) = True"
| "is_finite PosInfinity = False"
| "is_finite NegInfinity = False"
| "is_finite NaN = False"

fun num_add :: "number \<Rightarrow> number \<Rightarrow> number" where
  "num_add (Finite x) (Finite y) = round_number (x + y)"
| "num_add NaN b = NaN"
| "num_add a NaN = NaN"
| "num_add PosInfinity NegInfinity = NaN"
| "num_add NegInfinity PosInfinity = NaN"
| "num_add PosInfinity b = PosInfinity"
| "num_add NegInfinity b = NegInfinity"
| "num_add (Finite x) b = b"

fun num_mul :: "number \<Rightarrow> number \<Rightarrow> number" where
  "num_mul (Finite x) (Finite y) = round_number (x * y)"
| "num_mul NaN b = NaN"
| "num_mul a NaN = NaN"
| "num_mul a b =
     (if a = Finite 0 \<or> b = Finite 0 then NaN
      else if is_negative a = is_negative b then PosInfinity
      else NegInfinity)"

text \<open>
  A zero divisor counts as \<open>+0\<close>; the divisors of the code are the literal 100 and a
  count that is at least 1.
\<close>

fun num_div :: "number \<Rightarrow> number \<Rightarrow> number" where
  "num_div (Finite x) (Finite y) =
     (if y = 0 then (if x = 0 then NaN else if 0 < x then PosInfinity else NegInfinity)
      else round_number (x / y))"
| "num_div NaN b = NaN"
| "num_div a NaN = NaN"
| "num_div (Finite x) b = Finite 0"
| "num_div a (Finite y) =
     (if is_negative a = (y < 0) then PosInfinity else NegInfinity)"
| "num_div a b = NaN"

text \<open>What \<open>+=\<close> builds from 0 over a list of numbers, taken from the left.\<close>

definition num_sum :: "number list \<Rightarrow> number" where
  "num_sum xs = foldl num_add (Finite 0) xs"

text \<open>The comparison \<open><=\<close> of two numbers; it is false when one of them is NaN.\<close>

fun num_le :: "number \<Rightarrow> number \<Rightarrow> bool" where
  "num_le (Finite x) (Finite y) = (x \<le> y)"
| "num_le NaN b = False"
| "num_le a NaN = False"
| "num_le NegInfinity b = True"
| "num_le a PosInfinity = True"
| "num_le a b = False"

record Lead =
  lead_id :: string
  leadName :: string
  companyName :: string
  email :: string
  phone :: string
  industry :: string
  source :: Source
  budgetRange :: BudgetRange
  stage :: Stage
  status :: Status
  leadOwner :: string
  leadScore :: number
  probability :: number
  dealValue :: number
  expectedValue :: number
  nextActionType :: "ActivityType option"
  nextActionDateTime :: "string option"
  lastContactedAt :: "string option"
  createdAt :: string
  lead_notes :: string
  suggestedEmailSubject :: "string option"
  suggestedEmailBody :: "string option"

record Activity =
  activity_id :: string
  leadId :: string
  activity_type :: ActivityType
  subject :: string
  description :: string
  outcome :: ActivityOutcome
  dateTime :: string
  createdBy :: string


section \<open>Lead scoring (storageService.ts, calculateLeadScore)\<close>

text \<open>
  The three chains of comparisons work on the run-time strings, so they are functions of
  a string: a string that is none of the literals adds nothing.
\<close>

definition sourceScore :: "string \<Rightarrow> int" where
  "sourceScore s =
     (if s = ''Referral'' then 20
      else if s = ''Website'' then 10
      else if s = ''Cold Call'' then 5
      else 0)"

definition budgetScore :: "string \<Rightarrow> int" where
  "budgetScore b =
     (if b = ''>10L'' then 30
      else if b = ''5'' @ en_dash @ ''10L'' then 20
      else if b = ''1'' @ en_dash @ ''5L'' then 10
      else 0)"

text \<open>The two tests on the outcome are separate statements, not an else-chain.\<close>

definition outcomeScore :: "string \<Rightarrow> int" where
  "outcomeScore out =
     (if out = ''Interested'' then 20 else 0) + (if out = ''Follow-up Required'' then 10 else 0)"

definition calculateLeadScore :: "Lead \<Rightarrow> Activity list \<Rightarrow> int" where
  "calculateLeadScore lead leadActivities =
     (let score = 0;
          score = score + sourceScore (Source_value (source lead));
          score = score + budgetScore (BudgetRange_value (budgetRange lead));
          lastActivity = (if length leadActivities > 0 then Some (leadActivities ! 0) else None);
          score = score + (case lastActivity of
                             Some a \<Rightarrow> outcomeScore (ActivityOutcome_value (outcome a))
                           | None \<Rightarrow> 0);
          score = score + (if length leadActivities > 3 then 10 else 0)
      in min score 100)"


section \<open>Stage transition (LeadDetail, handleStageChange)\<close>

text \<open>
  The handler reads the component's \<open>lead\<close> state, which is null until the lead is
  loaded, and the stage chosen in the select box, whose options are the members of
  \<open>Stage\<close>. It stores the updated copy as the new state and sends the same copy to
  \<open>updateLead\<close>; the result here is the new state.
\<close>

definition handleStageChange :: "Lead option \<Rightarrow> Stage \<Rightarrow> Lead option" where
  "handleStageChange lead_state newStage =
     (case lead_state of
        None \<Rightarrow> None
      | Some lead \<Rightarrow>
          (let newProb = probability lead;
               newProb = (if newStage = Stage_Won then Finite 100 else newProb);
               newProb = (if newStage = Stage_Lost then Finite 0 else newProb);
               newProb = (if newStage = Stage_Proposal then Finite 70 else newProb);
               newProb = (if newStage = Stage_Qualified then Finite 40 else newProb)
           in Some (lead\<lparr>stage := newStage,
                          status := (if newStage = Stage_Won then Status_Won
                                     else if newStage = Stage_Lost then Status_Lost
                                     else Status_Open),
                          probability := newProb,
                          expectedValue :=
                            num_mul (dealValue lead) (num_div newProb (Finite 100))\<rparr>)))"

section \<open>Plain objects used as dictionaries\<close>

text \<open>
  The aggregations of \<^verbatim>\<open>Analytics.tsx\<close> collect their rows in an object literal
  \<^verbatim>\<open>{}\<close> indexed by a string. An object is the list of its own properties in creation
  order. Three facts of the language matter to the code and are written out:
  \<^item> reading a key that is not an own property finds the properties every object
    inherits, which are functions (or an object) and so count as true in a test;
  \<^item> assigning to an own property keeps its place, assigning to a new key appends it;
  \<^item> \<^verbatim>\<open>Object.values\<close> lists the own properties whose key is an array index first, in
    ascending numeric order, then the others in creation order.
\<close>

type_synonym 'v js_object = "(string \<times> 'v) list"

definition Object_prototype_keys :: "string list" where
  "Object_prototype_keys =
     [''constructor'', ''__defineGetter__'', ''__defineSetter__'', ''hasOwnProperty'',
      ''__lookupGetter__'', ''__lookupSetter__'', ''isPrototypeOf'', ''propertyIsEnumerable'',
      ''toString'', ''valueOf'', ''__proto__'', ''toLocaleString'']"

datatype 'v property = Own 'v | Inherited | Undefined

definition get_property :: "'v js_object \<Rightarrow> string \<Rightarrow> 'v property" where
  "get_property obj k =
     (case map_of obj k of
        Some v \<Rightarrow> Own v
      | None \<Rightarrow> if k \<in> set Object_prototype_keys then Inherited else Undefined)"

definition set_property :: "'v js_object \<Rightarrow> string \<Rightarrow> 'v \<Rightarrow> 'v js_object" where
  "set_property obj k v = AList.update k v obj"

definition is_digit :: "char \<Rightarrow> bool" where
  "is_digit c = (CHR ''0'' \<le> c \<and> c \<le> CHR ''9'')"

definition decimal_value :: "string \<Rightarrow> int" where
  "decimal_value k = foldl (\<lambda>n c. 10 * n + (of_char c - 48)) 0 k"

text \<open>An array index is the canonical decimal form of an integer below \<open>2^32 - 1\<close>.\<close>

definition is_array_index :: "string \<Rightarrow> bool" where
  "is_array_index k =
     (k \<noteq> [] \<and> list_all is_digit k \<and> (if hd k = CHR ''0'' then k = ''0'' else True)
      \<and> decimal_value k < 2 ^ 32 - 1)"

definition Object_values :: "'v js_object \<Rightarrow> 'v list" where
  "Object_values obj =
     map snd (sort_key (\<lambda>p. decimal_value (fst p)) (filter (\<lambda>p. is_array_index (fst p)) obj)
              @ filter (\<lambda>p. \<not> is_array_index (fst p)) obj)"


section \<open>Funnel (Analytics.tsx, funnelData)\<close>

record FunnelRow =
  funnel_name :: Stage
  funnel_value :: nat
  funnel_fill :: string

definition COLORS :: "string list" where
  "COLORS = [''#3b82f6'', ''#6366f1'', ''#8b5cf6'', ''#d946ef'', ''#ec4899'']"

definition stageOrder :: "Stage list" where
  "stageOrder = [Stage_New, Stage_Contacted, Stage_Qualified, Stage_Proposal, Stage_Won]"

text \<open>
  The tally reads and writes the key \<open>lead.stage\<close>, one of the six stage strings; none of
  them is an inherited property name, so a key that is not yet an own property reads as
  undefined and counts from 0.
\<close>

definition funnelRawCounts_step :: "nat js_object \<Rightarrow> Lead \<Rightarrow> nat js_object" where
  "funnelRawCounts_step acc lead =
     (let k = Stage_value (stage lead)
      in set_property acc k ((case map_of acc k of Some n \<Rightarrow> n | None \<Rightarrow> 0) + 1))"

definition funnelRawCounts :: "Lead list \<Rightarrow> nat js_object" where
  "funnelRawCounts ls = foldl funnelRawCounts_step [] ls"

definition funnelData :: "Lead list \<Rightarrow> FunnelRow list" where
  "funnelData ls =
     map (\<lambda>(st, index).
            \<lparr>funnel_name = st,
             funnel_value = (case map_of (funnelRawCounts ls) (Stage_value st) of
                               Some n \<Rightarrow> n | None \<Rightarrow> 0),
             funnel_fill = COLORS ! (index mod length COLORS)\<rparr>)
         (zip stageOrder [0 ..< length stageOrder])"


section \<open>Revenue trend (Analytics.tsx, revenueByMonth and revenueData)\<close>

text \<open>
  \<^verbatim>\<open>new Date(lead.createdAt)\<close> belongs to the runtime (it depends on the time zone), so the
  aggregation takes it as a parameter: a date gives its local year and month index
  (0 to 11), or is invalid, and then both read as NaN.
\<close>

datatype JsDate = LocalDate int nat | InvalidDate

fun String_nat :: "nat \<Rightarrow> string" where
  "String_nat n =
     (if n < 10 then [''0123456789'' ! n]
      else String_nat (n div 10) @ [''0123456789'' ! (n mod 10)])"

declare String_nat.simps [simp del]

definition String_int :: "int \<Rightarrow> string" where
  "String_int i = (if i < 0 then ''-'' @ String_nat (nat (- i)) else String_nat (nat i))"

definition padStart2 :: "string \<Rightarrow> string" where
  "padStart2 s = replicate (2 - length s) CHR ''0'' @ s"

definition month_key :: "JsDate \<Rightarrow> string" where
  "month_key d =
     (case d of
        LocalDate y m \<Rightarrow> String_int y @ ''-'' @ padStart2 (String_nat (m + 1))
      | InvalidDate \<Rightarrow> ''NaN-NaN'')"

text \<open>The dates the runtime can hand out: a month index is below 12.\<close>

fun valid_date :: "JsDate \<Rightarrow> bool" where
  "valid_date (LocalDate y m) = (m < 12)"
| "valid_date InvalidDate = True"

record RevenueRow =
  rev_name :: string
  rev_expected :: number
  rev_closed :: number

definition revenueByMonth_step ::
  "(string \<Rightarrow> JsDate) \<Rightarrow> RevenueRow js_object \<Rightarrow> Lead \<Rightarrow> RevenueRow js_object" where
  "revenueByMonth_step new_Date acc lead =
     (let key = month_key (new_Date (createdAt lead));
          acc = (case get_property acc key of
                   Undefined \<Rightarrow>
                     set_property acc key
                       \<lparr>rev_name = key, rev_expected = Finite 0, rev_closed = Finite 0\<rparr>
                 | _ \<Rightarrow> acc)
      in case get_property acc key of
           Own r \<Rightarrow>
             set_property acc key
               (r\<lparr>rev_expected := num_add (rev_expected r) (expectedValue lead),
                  rev_closed := (if status lead = Status_Won
                                 then num_add (rev_closed r) (dealValue lead)
                                 else rev_closed r)\<rparr>)
         | _ \<Rightarrow> acc)"

definition revenueByMonth :: "(string \<Rightarrow> JsDate) \<Rightarrow> Lead list \<Rightarrow> RevenueRow js_object" where
  "revenueByMonth new_Date ls = foldl (revenueByMonth_step new_Date) [] ls"

text \<open>
  The rows are sorted with \<open>localeCompare\<close> on the key. The keys are made of digits, the
  minus sign and the letters of NaN, on which it is the order of the character codes,
  compared from the left; \<open>sort\<close> is stable.
\<close>

definition revenueData :: "(string \<Rightarrow> JsDate) \<Rightarrow> Lead list \<Rightarrow> RevenueRow list" where
  "revenueData new_Date ls = sort_key rev_name (Object_values (revenueByMonth new_Date ls))"


section \<open>Leaderboard (Analytics.tsx, teamPerformance and teamData)\<close>

record TeamRow =
  team_name :: string
  team_leads :: nat
  team_revenue :: number
  team_won :: nat

text \<open>\<^verbatim>\<open>lead.leadOwner.split('@')[0]\<close>: the text before the first \<open>@\<close>, all of it if none.\<close>

definition owner_key :: "Lead \<Rightarrow> string" where
  "owner_key lead = takeWhile (\<lambda>c. c \<noteq> CHR ''@'') (leadOwner lead)"

text \<open>
  When the key reads as an inherited property the test \<^verbatim>\<open>!acc[owner]\<close> fails, no row is
  created, and the three updates land on the inherited value, outside the accumulator.
\<close>

definition teamPerformance_step :: "TeamRow js_object \<Rightarrow> Lead \<Rightarrow> TeamRow js_object" where
  "teamPerformance_step acc lead =
     (let owner = owner_key lead;
          acc = (case get_property acc owner of
                   Undefined \<Rightarrow>
                     set_property acc owner
                       \<lparr>team_name = owner, team_leads = 0, team_revenue = Finite 0,
                        team_won = 0\<rparr>
                 | _ \<Rightarrow> acc)
      in case get_property acc owner of
           Own r \<Rightarrow>
             set_property acc owner
               (r\<lparr>team_leads := team_leads r + 1,
                  team_revenue := num_add (team_revenue r) (expectedValue lead),
                  team_won := (if status lead = Status_Won then team_won r + 1 else team_won r)\<rparr>)
         | _ \<Rightarrow> acc)"

definition teamPerformance :: "Lead list \<Rightarrow> TeamRow js_object" where
  "teamPerformance ls = foldl teamPerformance_step [] ls"

text \<open>
  \<^verbatim>\<open>sort((a, b) => b.revenue - a.revenue)\<close>: a stable sort, descending by revenue. The
  totals are doubles or infinities, and on those the sign of the difference is the order
  of \<open>desc_key\<close>: \<open>+Infinity\<close> first, the finite totals downwards, \<open>-Infinity\<close> last (two
  equal infinities give NaN, which the sort reads as 0, a tie). A NaN total makes the
  comparator inconsistent and the language leaves the order to the implementation; the
  key puts such rows last. No total is NaN when the expected values are finite.
\<close>

fun desc_key :: "number \<Rightarrow> int \<times> rat" where
  "desc_key PosInfinity = (0, 0)"
| "desc_key (Finite x) = (1, - x)"
| "desc_key NegInfinity = (2, 0)"
| "desc_key NaN = (3, 0)"

definition teamData :: "Lead list \<Rightarrow> TeamRow list" where
  "teamData ls = sort_key (\<lambda>r. desc_key (team_revenue r)) (Object_values (teamPerformance ls))"


section \<open>Conversion by source (Analytics.tsx, sourceStats and sourceConversionData)\<close>

record SourceStat =
  stat_name :: Source
  stat_total :: nat
  stat_won :: nat

record ConversionRow =
  conv_name :: Source
  conv_rate :: rat
  conv_total :: nat

definition sourceStats_step :: "SourceStat js_object \<Rightarrow> Lead \<Rightarrow> SourceStat js_object" where
  "sourceStats_step acc lead =
     (let key = Source_value (source lead);
          acc = (case get_property acc key of
                   Undefined \<Rightarrow>
                     set_property acc key \<lparr>stat_name = source lead, stat_total = 0, stat_won = 0\<rparr>
                 | _ \<Rightarrow> acc)
      in case get_property acc key of
           Own r \<Rightarrow>
             set_property acc key
               (r\<lparr>stat_total := stat_total r + 1,
                  stat_won := (if status lead = Status_Won then stat_won r + 1 else stat_won r)\<rparr>)
         | _ \<Rightarrow> acc)"

definition sourceStats :: "Lead list \<Rightarrow> SourceStat js_object" where
  "sourceStats ls = foldl sourceStats_step [] ls"

text \<open>
  The quotient and the product are the double-precision ones of two counts that are exact.
  \<open>toFixed(1)\<close> takes the integer \<open>n\<close> with \<open>n / 10\<close> nearest to the value, the
  larger one on a tie, and \<open>Number\<close> reads the decimal back: the rate is kept as the
  decimal \<open>n / 10\<close>.
\<close>

definition toFixed1 :: "rat \<Rightarrow> rat" where
  "toFixed1 x = sgn x * of_int \<lfloor>\<bar>x\<bar> * 10 + 1 / 2\<rfloor> / 10"

definition sourceConversionData :: "Lead list \<Rightarrow> ConversionRow list" where
  "sourceConversionData ls =
     map (\<lambda>s. \<lparr>conv_name = stat_name s,
               conv_rate = (if stat_total s > 0
                            then toFixed1 (dbl (dbl (of_nat (stat_won s) / of_nat (stat_total s)) * 100))
                            else 0),
               conv_total = stat_total s\<rparr>)
         (Object_values (sourceStats ls))"


section \<open>The tables and the rounding of the specification\<close>

text \<open>The point tables as the specification words them, on the members of the enums.\<close>

fun spec_source_points :: "Source \<Rightarrow> int" where
  "spec_source_points Source_Referral = 20"
| "spec_source_points Source_Website = 10"
| "spec_source_points Source_ColdCall = 5"
| "spec_source_points Source_LinkedIn = 0"
| "spec_source_points Source_Event = 0"

fun spec_budget_points :: "BudgetRange \<Rightarrow> int" where
  "spec_budget_points Above10L = 30"
| "spec_budget_points FiveToTenL = 20"
| "spec_budget_points OneToFiveL = 10"
| "spec_budget_points Below1L = 0"

fun spec_outcome_points :: "ActivityOutcome \<Rightarrow> int" where
  "spec_outcome_points Interested = 20"
| "spec_outcome_points FollowUpRequired = 10"
| "spec_outcome_points NoResponse = 0"
| "spec_outcome_points NotInterested = 0"

fun spec_engagement_points :: "Activity list \<Rightarrow> int" where
  "spec_engagement_points [] = 0"
| "spec_engagement_points (a # rest) = spec_outcome_points (outcome a)"

definition spec_volume_points :: "Activity list \<Rightarrow> int" where
  "spec_volume_points A = (if length A > 3 then 10 else 0)"

text \<open>The table of the specification: the probability and the status a stage gives.\<close>

fun spec_probability :: "Stage \<Rightarrow> number \<Rightarrow> number" where
  "spec_probability Stage_Won p = Finite 100"
| "spec_probability Stage_Lost p = Finite 0"
| "spec_probability Stage_Proposal p = Finite 70"
| "spec_probability Stage_Qualified p = Finite 40"
| "spec_probability Stage_New p = p"
| "spec_probability Stage_Contacted p = p"

fun spec_status :: "Stage \<Rightarrow> Status" where
  "spec_status Stage_Won = Status_Won"
| "spec_status Stage_Lost = Status_Lost"
| "spec_status Stage_Proposal = Status_Open"
| "spec_status Stage_Qualified = Status_Open"
| "spec_status Stage_New = Status_Open"
| "spec_status Stage_Contacted = Status_Open"

text \<open>
  The rounding the specification asks of the win rate: the exact percentage, rounded half
  away from zero to one decimal place.
\<close>

definition spec_round_half_away :: "rat \<Rightarrow> rat" where
  "spec_round_half_away x = sgn x * of_int \<lfloor>\<bar>x\<bar> * 10 + 1 / 2\<rfloor> / 10"

definition spec_win_rate :: "nat \<Rightarrow> nat \<Rightarrow> rat" where
  "spec_win_rate wonCount totalCount =
     spec_round_half_away (of_nat wonCount / of_nat totalCount * 100)"

text \<open>
  The exact percentage lies exactly halfway between two values of one decimal place:
  \<open>1000 * won / total + 1 / 2\<close> is an integer.
\<close>

definition rate_on_tie :: "nat \<Rightarrow> nat \<Rightarrow> bool" where
  "rate_on_tie wonCount totalCount = ((2000 * wonCount + totalCount) mod (2 * totalCount) = 0)"


section \<open>A closed form for the grouping folds\<close>

text \<open>
  The three grouping folds have one shape: look the key up, create a row if the key reads
  as undefined, then update the row if it is an own property. \<open>group_step\<close> is that
  shape with the key, the fresh row and the update as parameters, and \<open>group_rows\<close>
  is what the fold builds: the keys that are not inherited names, in order of first
  occurrence, each with the row folded from the elements of that key.
\<close>

definition group_step ::
  "('a \<Rightarrow> string) \<Rightarrow> ('a \<Rightarrow> 'v) \<Rightarrow> ('v \<Rightarrow> 'a \<Rightarrow> 'v) \<Rightarrow> 'v js_object \<Rightarrow> 'a \<Rightarrow> 'v js_object" where
  "group_step key init upd acc x =
     (case map_of acc (key x) of
        Some r \<Rightarrow> AList.update (key x) (upd r x) acc
      | None \<Rightarrow> if key x \<in> set Object_prototype_keys then acc
                else acc @ [(key x, upd (init x) x)])"

definition first_occurrences :: "'a list \<Rightarrow> 'a list" where
  "first_occurrences xs = rev (remdups (rev xs))"

definition group_row :: "('a \<Rightarrow> string) \<Rightarrow> ('a \<Rightarrow> 'v) \<Rightarrow> ('v \<Rightarrow> 'a \<Rightarrow> 'v) \<Rightarrow> 'a list \<Rightarrow> string \<Rightarrow> 'v" where
  "group_row key init upd xs k =
     (let ys = filter (\<lambda>x. key x = k) xs in foldl upd (init (hd ys)) ys)"

definition group_keys :: "('a \<Rightarrow> string) \<Rightarrow> 'a list \<Rightarrow> string list" where
  "group_keys key xs =
     first_occurrences (map key (filter (\<lambda>x. key x \<notin> set Object_prototype_keys) xs))"

definition group_rows :: "('a \<Rightarrow> string) \<Rightarrow> ('a \<Rightarrow> 'v) \<Rightarrow> ('v \<Rightarrow> 'a \<Rightarrow> 'v) \<Rightarrow> 'a list \<Rightarrow> 'v js_object" where
  "group_rows key init upd xs = map (\<lambda>k. (k, group_row key init upd xs k)) (group_keys key xs)"

definition team_init :: "Lead \<Rightarrow> TeamRow" where
  "team_init lead =
     \<lparr>team_name = owner_key lead, team_leads = 0, team_revenue = Finite 0, team_won = 0\<rparr>"

definition team_upd :: "TeamRow \<Rightarrow> Lead \<Rightarrow> TeamRow" where
  "team_upd r lead =
     r\<lparr>team_leads := team_leads r + 1,
       team_revenue := num_add (team_revenue r) (expectedValue lead),
       team_won := (if status lead = Status_Won then team_won r + 1 else team_won r)\<rparr>"

definition rev_key :: "(string \<Rightarrow> JsDate) \<Rightarrow> Lead \<Rightarrow> string" where
  "rev_key new_Date lead = month_key (new_Date (createdAt lead))"

definition rev_init :: "(string \<Rightarrow> JsDate) \<Rightarrow> Lead \<Rightarrow> RevenueRow" where
  "rev_init new_Date lead =
     \<lparr>rev_name = rev_key new_Date lead, rev_expected = Finite 0, rev_closed = Finite 0\<rparr>"

definition rev_upd :: "RevenueRow \<Rightarrow> Lead \<Rightarrow> RevenueRow" where
  "rev_upd r lead =
     r\<lparr>rev_expected := num_add (rev_expected r) (expectedValue lead),
       rev_closed := (if status lead = Status_Won then num_add (rev_closed r) (dealValue lead)
                      else rev_closed r)\<rparr>"

definition stat_key :: "Lead \<Rightarrow> string" where
  "stat_key lead = Source_value (source lead)"

definition stat_init :: "Lead \<Rightarrow> SourceStat" where
  "stat_init lead = \<lparr>stat_name = source lead, stat_total = 0, stat_won = 0\<rparr>"

definition stat_upd :: "SourceStat \<Rightarrow> Lead \<Rightarrow> SourceStat" where
  "stat_upd r lead =
     r\<lparr>stat_total := stat_total r + 1,
       stat_won := (if status lead = Status_Won then stat_won r + 1 else stat_won r)\<rparr>"


text \<open>The count a key has reached in the funnel tally, 0 if it is not an own property.\<close>

definition tally :: "nat js_object \<Rightarrow> string \<Rightarrow> nat" where
  "tally acc k = (case map_of acc k of Some n \<Rightarrow> n | None \<Rightarrow> 0)"

text \<open>The row that \<open>sourceConversionData\<close> makes of one entry of the statistics.\<close>

definition conversion_row :: "SourceStat \<Rightarrow> ConversionRow" where
  "conversion_row s =
     \<lparr>conv_name = stat_name s,
      conv_rate = (if stat_total s > 0
                   then toFixed1 (dbl (dbl (of_nat (stat_won s) / of_nat (stat_total s)) * 100))
                   else 0),
      conv_total = stat_total s\<rparr>"

section \<open>Concrete inputs\<close>

definition score_example_lead :: Lead where
  "score_example_lead =
     \<lparr>lead_id = ''L1'', leadName = ''Asha'', companyName = ''Acme'', email = ''asha@acme.example'',
      phone = ''000'', industry = ''Retail'', source = Source_Referral, budgetRange = Above10L,
      stage = Stage_New, status = Status_Open, leadOwner = ''ravi@apex.example'',
      leadScore = Finite 0, probability = Finite 10, dealValue = Finite 1000,
      expectedValue = Finite 100, nextActionType = None,
      nextActionDateTime = None, lastContactedAt = None, createdAt = ''2024-03-05T10:00:00.000Z'',
      lead_notes = [], suggestedEmailSubject = None, suggestedEmailBody = None\<rparr>"

definition score_example_activity :: "ActivityOutcome \<Rightarrow> Activity" where
  "score_example_activity out =
     \<lparr>activity_id = ''A1'', leadId = ''L1'', activity_type = Call, subject = ''Call with Asha'',
      description = ''intro'', outcome = out, dateTime = ''2024-03-06T10:00:00.000Z'',
      createdBy = ''ravi@apex.example''\<rparr>"

definition sample_lead :: "string \<Rightarrow> Source \<Rightarrow> Status \<Rightarrow> rat \<Rightarrow> rat \<Rightarrow> string \<Rightarrow> Lead" where
  "sample_lead own src st dv ev cr =
     score_example_lead
       \<lparr>source := src,
        stage := (if st = Status_Won then Stage_Won else if st = Status_Lost then Stage_Lost
                  else Stage_Contacted),
        status := st, leadOwner := own, dealValue := Finite dv, expectedValue := Finite ev,
        createdAt := cr\<rparr>"

definition merged_owner_leads :: "Lead list" where
  "merged_owner_leads =
     [sample_lead ''asha@north.example'' Source_Website Status_Open 1000 100 [],
      sample_lead ''asha@south.example'' Source_Referral Status_Won 200 200 []]"

definition ordered_owner_leads :: "Lead list" where
  "ordered_owner_leads =
     [sample_lead ''meera@apex.example'' Source_Website Status_Open 2000 200 [],
      sample_lead ''ravi@apex.example'' Source_Website Status_Open 1000 100 [],
      sample_lead ''kiran@apex.example'' Source_Event Status_Won 200 200 [],
      sample_lead ''ravi@apex.example'' Source_Referral Status_Won 200 200 []]"

definition tied_owner_leads :: "Lead list" where
  "tied_owner_leads =
     [sample_lead ''ravi@apex.example'' Source_Website Status_Open 1000 100 [],
      sample_lead ''1001@apex.example'' Source_Website Status_Open 1000 100 []]"

definition lost_stage_leads :: "Lead list" where
  "lost_stage_leads =
     [sample_lead ''meera@apex.example'' Source_Website Status_Open 2000 200 [],
      sample_lead ''ravi@apex.example'' Source_Website Status_Lost 1000 0 [],
      sample_lead ''kiran@apex.example'' Source_Event Status_Won 200 200 []]"

definition sample_new_Date :: "string \<Rightarrow> JsDate" where
  "sample_new_Date s =
     (if s = ''2024-03-05T10:00:00.000Z'' then LocalDate 2024 2
      else if s = ''2024-03-28T16:45:00.000Z'' then LocalDate 2024 2
      else if s = ''2023-11-20T08:30:00.000Z'' then LocalDate 2023 10
      else InvalidDate)"

definition revenue_leads :: "Lead list" where
  "revenue_leads =
     [sample_lead ''meera@apex.example'' Source_Website Status_Won 100 100 ''2024-03-05T10:00:00.000Z'',
      sample_lead ''ravi@apex.example'' Source_Website Status_Open 500 50 ''2024-03-28T16:45:00.000Z'',
      sample_lead ''kiran@apex.example'' Source_Event Status_Open 700 70 ''2023-11-20T08:30:00.000Z'']"

definition three_website_leads :: "Lead list" where
  "three_website_leads =
     [sample_lead ''meera@apex.example'' Source_Website Status_Won 100 100 [],
      sample_lead ''ravi@apex.example'' Source_Website Status_Open 500 50 [],
      sample_lead ''kiran@apex.example'' Source_Website Status_Lost 700 0 []]"

definition rate_tie_leads :: "Lead list" where
  "rate_tie_leads =
     replicate 23 (sample_lead ''meera@apex.example'' Source_Website Status_Won 100 100 [])
     @ replicate 57 (sample_lead ''ravi@apex.example'' Source_Website Status_Open 500 50 [])"

text \<open>
  A lead as the lead form creates it (LeadList.tsx): probability 10 and expected value
  \<^verbatim>\<open>dealValue * 0.1\<close>, the literal being the double nearest to one tenth.
\<close>

definition created_lead :: "string \<Rightarrow> rat \<Rightarrow> string \<Rightarrow> Lead" where
  "created_lead own dv cr =
     score_example_lead
       \<lparr>stage := Stage_New, status := Status_Open, leadOwner := own,
        probability := Finite 10, dealValue := Finite dv,
        expectedValue := num_mul (Finite dv) (round_number (1 / 10)), createdAt := cr\<rparr>"

definition created_leads :: "Lead list" where
  "created_leads =
     [created_lead ''meera@apex.example'' 1001 ''2024-03-05T10:00:00.000Z'',
      created_lead ''meera@apex.example'' 2003 ''2024-03-28T16:45:00.000Z'']"


section \<open>Scoring: the rules and the range\<close>

lemma sourceScore_value: "sourceScore (Source_value s) = spec_source_points s"
  by (cases s) (simp_all add: sourceScore_def)

lemma budgetScore_value: "budgetScore (BudgetRange_value b) = spec_budget_points b"
  by (cases b) (simp_all add: budgetScore_def en_dash_def)

lemma outcomeScore_value: "outcomeScore (ActivityOutcome_value out) = spec_outcome_points out"
  by (cases out) (simp_all add: outcomeScore_def)

lemma spec_source_points_range: "0 \<le> spec_source_points s \<and> spec_source_points s \<le> 20"
  by (cases s) simp_all

lemma spec_budget_points_range: "0 \<le> spec_budget_points b \<and> spec_budget_points b \<le> 30"
  by (cases b) simp_all

lemma spec_outcome_points_range: "0 \<le> spec_outcome_points out \<and> spec_outcome_points out \<le> 20"
  by (cases out) simp_all

lemma spec_engagement_points_range:
  "0 \<le> spec_engagement_points A \<and> spec_engagement_points A \<le> 20"
  by (cases A) (simp_all add: spec_outcome_points_range)

lemma spec_volume_points_range: "0 \<le> spec_volume_points A \<and> spec_volume_points A \<le> 10"
  by (simp add: spec_volume_points_def)

lemma calculateLeadScore_sum:
  "calculateLeadScore L A =
     min 100 (spec_source_points (source L) + spec_budget_points (budgetRange L)
              + spec_engagement_points A + spec_volume_points A)"
proof (cases A)
  case Nil
  then show ?thesis
    by (simp add: calculateLeadScore_def sourceScore_value budgetScore_value
        spec_volume_points_def min.commute)
next
  case (Cons a rest)
  then show ?thesis
    by (simp add: calculateLeadScore_def Let_def sourceScore_value budgetScore_value
        outcomeScore_value spec_volume_points_def min.commute)
qed

text \<open>
  C2. The score is the sum of the four contributions, capped at 100: the source and
  budget tables, the outcome of the first activity only (nothing for an empty list), and
  10 when there are more than 3 activities. A run-time string that is none of the
  recognised literals contributes 0. The score lies between 0 and 100.
\<close>
theorem calculateLeadScore_rules:
  "calculateLeadScore L A =
     min 100 (spec_source_points (source L) + spec_budget_points (budgetRange L)
              + spec_engagement_points A + spec_volume_points A)
   \<and> (s \<notin> {''Referral'', ''Website'', ''Cold Call''} \<longrightarrow> sourceScore s = 0)
   \<and> (b \<notin> {''>10L'', ''5'' @ en_dash @ ''10L'', ''1'' @ en_dash @ ''5L''} \<longrightarrow> budgetScore b = 0)
   \<and> (out \<notin> {''Interested'', ''Follow-up Required''} \<longrightarrow> outcomeScore out = 0)
   \<and> 0 \<le> calculateLeadScore L A \<and> calculateLeadScore L A \<le> 100"
proof -
  have range: "0 \<le> spec_source_points (source L) + spec_budget_points (budgetRange L)
              + spec_engagement_points A + spec_volume_points A"
    using spec_source_points_range [of "source L"] spec_budget_points_range [of "budgetRange L"]
      spec_engagement_points_range [of A] spec_volume_points_range [of A]
    by linarith
  show ?thesis
    using range
    by (simp add: calculateLeadScore_sum sourceScore_def budgetScore_def outcomeScore_def)
qed

text \<open>
  C10. The four contributions are at most 20, 30, 20 and 10, so the score never exceeds 80
  and the cap at 100 never decides the result.
\<close>
theorem calculateLeadScore_le_80:
  "calculateLeadScore L A \<le> 80
   \<and> calculateLeadScore L A =
       spec_source_points (source L) + spec_budget_points (budgetRange L)
       + spec_engagement_points A + spec_volume_points A"
proof -
  have "spec_source_points (source L) + spec_budget_points (budgetRange L)
        + spec_engagement_points A + spec_volume_points A \<le> 80"
    using spec_source_points_range [of "source L"] spec_budget_points_range [of "budgetRange L"]
      spec_engagement_points_range [of A] spec_volume_points_range [of A]
    by linarith
  then show ?thesis
    by (simp add: calculateLeadScore_sum)
qed

theorem calculateLeadScore_rules_witness:
  "calculateLeadScore score_example_lead
     [score_example_activity Interested, score_example_activity NoResponse,
      score_example_activity NoResponse, score_example_activity NotInterested] = 80
   \<and> sourceScore ''Partner'' = 0 \<and> budgetScore ''10L+'' = 0 \<and> outcomeScore ''Busy'' = 0"
  using calculateLeadScore_rules [of score_example_lead
      "[score_example_activity Interested, score_example_activity NoResponse,
        score_example_activity NoResponse, score_example_activity NotInterested]"
      "''Partner''" "''10L+''" "''Busy''"]
  by (simp add: score_example_lead_def score_example_activity_def spec_volume_points_def en_dash_def)


section \<open>Stage transition: the table, the invariant, idempotence\<close>

lemma handleStageChange_Some:
  "handleStageChange (Some L) s =
     Some (L\<lparr>stage := s, status := spec_status s,
             probability := spec_probability s (probability L),
             expectedValue :=
               num_mul (dealValue L) (num_div (spec_probability s (probability L)) (Finite 100))\<rparr>)"
  by (cases s) (simp_all add: handleStageChange_def)

lemma double_limit_power: "double_limit = 2 ^ 1024"
  by (simp add: double_limit_def)

lemma stage_examples_double_precision:
  "num_mul (Finite 1000) (num_div (Finite 70) (Finite 100)) = Finite 700"
  "num_mul (Finite 1000) (num_div (Finite 100) (Finite 100)) = Finite 1000"
  "num_mul (Finite 1000) (num_div (Finite 0) (Finite 100)) = Finite 0"
  by code_simp+

text \<open>
  C1, as the code has it. A stage change of a loaded lead returns the lead with the new
  stage, the status and probability of the table (probability kept for New and Contacted)
  and every other field unchanged, except the expected value: it is the double-precision
  product of the deal value and the double-precision quotient of the resulting probability
  by 100, as in \<^verbatim>\<open>lead.dealValue * (newProb / 100)\<close>. With deal value 1000: Proposal
  gives 70, Open, 700; Won gives 100, Won, 1000; Lost gives 0, Lost, 0.
\<close>

theorem handleStageChange_table:
  "handleStageChange (Some L) s =
     Some (L\<lparr>stage := s, status := spec_status s,
             probability := spec_probability s (probability L),
             expectedValue :=
               num_mul (dealValue L) (num_div (spec_probability s (probability L)) (Finite 100))\<rparr>)
   \<and> (dealValue L = Finite 1000 \<longrightarrow>
        map_option (\<lambda>r. (probability r, status r, expectedValue r))
          (handleStageChange (Some L) Stage_Proposal) = Some (Finite 70, Status_Open, Finite 700)
      \<and> map_option (\<lambda>r. (probability r, status r, expectedValue r))
          (handleStageChange (Some L) Stage_Won) = Some (Finite 100, Status_Won, Finite 1000)
      \<and> map_option (\<lambda>r. (probability r, status r, expectedValue r))
          (handleStageChange (Some L) Stage_Lost) = Some (Finite 0, Status_Lost, Finite 0))"
  by (simp add: handleStageChange_Some stage_examples_double_precision
      del: num_mul.simps num_div.simps)

theorem handleStageChange_table_witness:
  "dealValue score_example_lead = Finite 1000
   \<and> map_option (\<lambda>r. (stage r, probability r, status r, expectedValue r))
       (handleStageChange (Some score_example_lead) Stage_Proposal)
     = Some (Stage_Proposal, Finite 70, Status_Open, Finite 700)
   \<and> map_option (\<lambda>r. (stage r, probability r, status r, expectedValue r))
       (handleStageChange (Some score_example_lead) Stage_Contacted)
     = Some (Stage_Contacted, Finite 10, Status_Open, Finite 100)"
proof -
  have kept: "num_mul (Finite 1000) (num_div (Finite 10) (Finite 100)) = Finite 100"
    by code_simp
  show ?thesis
    using handleStageChange_table [of score_example_lead Stage_Proposal]
      handleStageChange_table [of score_example_lead Stage_Contacted]
    by (simp add: score_example_lead_def kept stage_examples_double_precision
        del: num_mul.simps num_div.simps)
qed

text \<open>
  A lead with deal value 350 moved to Proposal: 350 * 70 / 100 is 245, exactly and in
  double precision, but the expected value stored is 350 * 0.7 = 244.99999999999997.
\<close>

theorem handleStageChange_rounds_quotient_first:
  "map_option expectedValue
     (handleStageChange (Some (created_lead ''meera@apex.example'' 350 [])) Stage_Proposal)
     = Some (Finite (8620171161763839 / 35184372088832))
   \<and> num_div (num_mul (Finite 350) (Finite 70)) (Finite 100) = Finite 245
   \<and> (350 :: rat) * 70 / 100 = 245
   \<and> (8620171161763839 / 35184372088832 :: rat) < 245"
  by code_simp

text \<open>
  C4, as the code has it. The lead a stage change returns has its expected value equal to
  its own deal value times the quotient of its own probability by 100, both operations in
  double precision and in this order.
\<close>

theorem handleStageChange_invariant:
  "\<exists>L'. handleStageChange (Some L) s = Some L'
        \<and> expectedValue L' = num_mul (dealValue L') (num_div (probability L') (Finite 100))"
  by (simp add: handleStageChange_Some)

theorem handleStageChange_invariant_witness:
  "map_option expectedValue (handleStageChange (Some score_example_lead) Stage_Won)
     = Some (Finite 1000)
   \<and> num_mul (Finite 1000) (num_div (Finite 100) (Finite 100)) = Finite 1000"
  using handleStageChange_invariant [of score_example_lead Stage_Won]
  by (auto simp add: handleStageChange_Some score_example_lead_def
      stage_examples_double_precision simp del: num_mul.simps num_div.simps)

text \<open>
  A lead with deal value 4999 moved to Proposal keeps deal value 4999, gets probability 70
  and the expected value 3499.2999999999997, which is neither 4999 * 70 / 100 = 3499.3 nor
  the double nearest to it, the value of \<^verbatim>\<open>dealValue * probability / 100\<close>.
\<close>

theorem handleStageChange_breaks_invariant:
  "map_option expectedValue
     (handleStageChange (Some (created_lead ''meera@apex.example'' 4999 [])) Stage_Proposal)
     = Some (Finite (7695042078153113 / 2199023255552))
   \<and> map_option dealValue
     (handleStageChange (Some (created_lead ''meera@apex.example'' 4999 [])) Stage_Proposal)
     = Some (Finite 4999)
   \<and> map_option probability
     (handleStageChange (Some (created_lead ''meera@apex.example'' 4999 [])) Stage_Proposal)
     = Some (Finite 70)
   \<and> num_div (num_mul (Finite 4999) (Finite 70)) (Finite 100)
     = Finite (3847521039076557 / 1099511627776)
   \<and> (7695042078153113 / 2199023255552 :: rat) < 3847521039076557 / 1099511627776
   \<and> (7695042078153113 / 2199023255552 :: rat) < 4999 * 70 / 100"
  by code_simp

text \<open>
  C9. Changing to the same stage twice gives the same lead state as changing to it once.
\<close>

theorem handleStageChange_idempotent:
  "handleStageChange (handleStageChange lead_state s) s = handleStageChange lead_state s"
proof (cases lead_state)
  case None
  then show ?thesis by (simp add: handleStageChange_def)
next
  case (Some L)
  then show ?thesis by (cases s) (simp_all add: handleStageChange_Some)
qed


section \<open>The grouping folds build the closed form\<close>

lemma first_occurrences_Nil: "first_occurrences [] = []"
  by (simp add: first_occurrences_def)

lemma first_occurrences_snoc:
  "first_occurrences (xs @ [x]) = (if x \<in> set xs then first_occurrences xs else first_occurrences xs @ [x])"
  by (simp add: first_occurrences_def)

lemma set_first_occurrences: "set (first_occurrences xs) = set xs"
  by (simp add: first_occurrences_def)

lemma distinct_first_occurrences: "distinct (first_occurrences xs)"
  by (simp add: first_occurrences_def)

lemma update_append_new: "k \<notin> fst ` set al \<Longrightarrow> AList.update k v al = al @ [(k, v)]"
  by (induction al) auto

lemma map_of_keyed: "map_of (map (\<lambda>k. (k, f k)) ks) k = (if k \<in> set ks then Some (f k) else None)"
  by (induction ks) auto

lemma update_keyed:
  "k \<in> set ks \<Longrightarrow> distinct ks \<Longrightarrow> AList.update k v (map (\<lambda>k'. (k', f k')) ks) = map (\<lambda>k'. (k', (f(k := v)) k')) ks"
  by (induction ks) auto

lemma distinct_group_keys: "distinct (group_keys key xs)"
  by (simp add: group_keys_def distinct_first_occurrences)

lemma set_group_keys:
  "set (group_keys key xs) = {k \<in> key ` set xs. k \<notin> set Object_prototype_keys}"
  by (auto simp add: group_keys_def set_first_occurrences)

lemma group_keys_snoc:
  "group_keys key (xs @ [x]) =
     (if key x \<in> set Object_prototype_keys \<or> key x \<in> key ` set xs then group_keys key xs
      else group_keys key xs @ [key x])"
  by (auto simp add: group_keys_def first_occurrences_snoc)

lemma group_row_snoc:
  "group_row key init upd (xs @ [x]) k =
     (if key x = k
      then (if k \<in> key ` set xs then upd (group_row key init upd xs k) x else upd (init x) x)
      else group_row key init upd xs k)"
proof (cases "key x = k")
  case False
  then show ?thesis by (simp add: group_row_def)
next
  case True
  show ?thesis
  proof (cases "k \<in> key ` set xs")
    case True
    then have "filter (\<lambda>x. key x = k) xs \<noteq> []"
      by (auto simp add: filter_empty_conv)
    with \<open>key x = k\<close> True show ?thesis
      by (simp add: group_row_def Let_def)
  next
    case False
    then have "filter (\<lambda>x. key x = k) xs = []"
      by (auto simp add: filter_empty_conv)
    with \<open>key x = k\<close> False show ?thesis
      by (simp add: group_row_def)
  qed
qed

lemma group_step_rows:
  "group_step key init upd (group_rows key init upd xs) x = group_rows key init upd (xs @ [x])"
proof (cases "key x \<in> set (group_keys key xs)")
  case True
  then have seen: "key x \<in> key ` set xs" and ok: "key x \<notin> set Object_prototype_keys"
    by (auto simp add: set_group_keys)
  have "group_step key init upd (group_rows key init upd xs) x =
        map (\<lambda>k. (k, ((group_row key init upd xs)(key x := upd (group_row key init upd xs (key x)) x)) k))
          (group_keys key xs)"
    using True by (simp add: group_step_def group_rows_def map_of_keyed update_keyed distinct_group_keys)
  also have "\<dots> = group_rows key init upd (xs @ [x])"
    using seen ok by (auto simp add: group_rows_def group_keys_snoc group_row_snoc)
  finally show ?thesis .
next
  case False
  show ?thesis
  proof (cases "key x \<in> set Object_prototype_keys")
    case True
    have "k \<in> set (group_keys key xs) \<Longrightarrow> key x \<noteq> k" for k
      using True by (auto simp add: set_group_keys)
    then show ?thesis
      using False True
      by (auto simp add: group_step_def group_rows_def map_of_keyed group_keys_snoc group_row_snoc)
  next
    case ok: False
    with False have new: "key x \<notin> key ` set xs"
      by (auto simp add: set_group_keys)
    have "k \<in> set (group_keys key xs) \<Longrightarrow> key x \<noteq> k" for k
      using False by auto
    then show ?thesis
      using False ok new
      by (auto simp add: group_step_def group_rows_def map_of_keyed group_keys_snoc group_row_snoc)
  qed
qed

lemma foldl_group_step:
  "foldl (group_step key init upd) [] xs = group_rows key init upd xs"
proof (induction xs rule: rev_induct)
  case Nil
  show ?case by (simp add: group_rows_def group_keys_def first_occurrences_Nil)
next
  case (snoc x xs)
  then show ?case by (simp add: group_step_rows)
qed

lemma update_last_entry:
  "k \<notin> fst ` set al \<Longrightarrow> AList.update k v (al @ [(k, w)]) = al @ [(k, v)]"
  by (induction al) auto

lemma map_of_append_new:
  "k \<notin> fst ` set al \<Longrightarrow> map_of (al @ [(k, w)]) k = Some w"
  by (induction al) auto

lemma group_step_shape:
  "(let acc' = (case get_property acc k of
                  Undefined \<Rightarrow> set_property acc k i
                | _ \<Rightarrow> acc)
    in case get_property acc' k of
         Own r \<Rightarrow> set_property acc' k (u r)
       | _ \<Rightarrow> acc')
   = (case map_of acc k of
        Some r \<Rightarrow> AList.update k (u r) acc
      | None \<Rightarrow> if k \<in> set Object_prototype_keys then acc else acc @ [(k, u i)])"
proof (cases "map_of acc k")
  case (Some r)
  then show ?thesis by (simp add: get_property_def set_property_def)
next
  case None
  then have new: "k \<notin> fst ` set acc"
    by (simp add: map_of_eq_None_iff)
  show ?thesis
    using None new
    by (simp add: get_property_def set_property_def update_append_new update_last_entry
        Let_def map_add_def)
qed

lemma teamPerformance_step_group:
  "teamPerformance_step acc lead = group_step owner_key team_init team_upd acc lead"
proof -
  have "teamPerformance_step acc lead =
        (let acc' = (case get_property acc (owner_key lead) of
                       Undefined \<Rightarrow> set_property acc (owner_key lead) (team_init lead)
                     | _ \<Rightarrow> acc)
         in case get_property acc' (owner_key lead) of
              Own r \<Rightarrow> set_property acc' (owner_key lead) (team_upd r lead)
            | _ \<Rightarrow> acc')"
    by (unfold teamPerformance_step_def team_init_def team_upd_def Let_def) (rule refl)
  also have "\<dots> = group_step owner_key team_init team_upd acc lead"
    unfolding group_step_def by (rule group_step_shape)
  finally show ?thesis .
qed

lemma revenueByMonth_step_group:
  "revenueByMonth_step nd acc lead = group_step (rev_key nd) (rev_init nd) rev_upd acc lead"
proof -
  have "revenueByMonth_step nd acc lead =
        (let acc' = (case get_property acc (rev_key nd lead) of
                       Undefined \<Rightarrow> set_property acc (rev_key nd lead) (rev_init nd lead)
                     | _ \<Rightarrow> acc)
         in case get_property acc' (rev_key nd lead) of
              Own r \<Rightarrow> set_property acc' (rev_key nd lead) (rev_upd r lead)
            | _ \<Rightarrow> acc')"
    by (unfold revenueByMonth_step_def rev_init_def rev_upd_def rev_key_def Let_def) (rule refl)
  also have "\<dots> = group_step (rev_key nd) (rev_init nd) rev_upd acc lead"
    unfolding group_step_def by (rule group_step_shape)
  finally show ?thesis .
qed

lemma sourceStats_step_group:
  "sourceStats_step acc lead = group_step stat_key stat_init stat_upd acc lead"
proof -
  have "sourceStats_step acc lead =
        (let acc' = (case get_property acc (stat_key lead) of
                       Undefined \<Rightarrow> set_property acc (stat_key lead) (stat_init lead)
                     | _ \<Rightarrow> acc)
         in case get_property acc' (stat_key lead) of
              Own r \<Rightarrow> set_property acc' (stat_key lead) (stat_upd r lead)
            | _ \<Rightarrow> acc')"
    by (unfold sourceStats_step_def stat_init_def stat_upd_def stat_key_def Let_def) (rule refl)
  also have "\<dots> = group_step stat_key stat_init stat_upd acc lead"
    unfolding group_step_def by (rule group_step_shape)
  finally show ?thesis .
qed

lemma teamPerformance_rows:
  "teamPerformance ls = group_rows owner_key team_init team_upd ls"
proof -
  have step: "teamPerformance_step = group_step owner_key team_init team_upd"
    by (intro ext) (rule teamPerformance_step_group)
  show ?thesis
    unfolding teamPerformance_def step by (rule foldl_group_step)
qed

lemma revenueByMonth_rows:
  "revenueByMonth nd ls = group_rows (rev_key nd) (rev_init nd) rev_upd ls"
proof -
  have step: "revenueByMonth_step nd = group_step (rev_key nd) (rev_init nd) rev_upd"
    by (intro ext) (rule revenueByMonth_step_group)
  show ?thesis
    unfolding revenueByMonth_def step by (rule foldl_group_step)
qed

lemma sourceStats_rows:
  "sourceStats ls = group_rows stat_key stat_init stat_upd ls"
proof -
  have step: "sourceStats_step = group_step stat_key stat_init stat_upd"
    by (intro ext) (rule sourceStats_step_group)
  show ?thesis
    unfolding sourceStats_def step by (rule foldl_group_step)
qed

subsection \<open>Object.values\<close>

lemma mset_Object_values: "mset (Object_values obj) = mset (map snd obj)"
proof -
  have "mset (Object_values obj) =
        image_mset snd {#p \<in># mset obj. is_array_index (fst p)#}
        + image_mset snd {#p \<in># mset obj. \<not> is_array_index (fst p)#}"
    by (simp add: Object_values_def)
  also have "\<dots> = image_mset snd ({#p \<in># mset obj. is_array_index (fst p)#}
                                  + {#p \<in># mset obj. \<not> is_array_index (fst p)#})"
    by (simp only: image_mset_union)
  also have "{#p \<in># mset obj. is_array_index (fst p)#}
             + {#p \<in># mset obj. \<not> is_array_index (fst p)#} = mset obj"
    by (rule multiset_partition [symmetric])
  finally show ?thesis by simp
qed

lemma Object_values_plain:
  "\<forall>p \<in> set obj. \<not> is_array_index (fst p) \<Longrightarrow> Object_values obj = map snd obj"
proof -
  assume plain: "\<forall>p \<in> set obj. \<not> is_array_index (fst p)"
  then have "filter (\<lambda>p. is_array_index (fst p)) obj = []"
    by (simp add: filter_empty_conv)
  moreover have "filter (\<lambda>p. \<not> is_array_index (fst p)) obj = obj"
    using plain by (simp add: filter_id_conv)
  ultimately show ?thesis by (simp add: Object_values_def)
qed

lemma Object_values_group_rows:
  "mset (Object_values (group_rows key init upd xs))
   = mset (map (group_row key init upd xs) (group_keys key xs))"
  by (simp add: mset_Object_values group_rows_def comp_def)

lemma Object_values_group_rows_plain:
  "\<forall>x \<in> set xs. \<not> is_array_index (key x) \<Longrightarrow>
   Object_values (group_rows key init upd xs) = map (group_row key init upd xs) (group_keys key xs)"
proof -
  assume plain: "\<forall>x \<in> set xs. \<not> is_array_index (key x)"
  have "\<forall>p \<in> set (group_rows key init upd xs). \<not> is_array_index (fst p)"
    using plain by (auto simp add: group_rows_def set_group_keys)
  then show ?thesis
    by (simp add: Object_values_plain group_rows_def comp_def)
qed

lemma Object_values_plain_part:
  assumes "\<forall>p \<in> set obj. nm (snd p) = fst p"
  shows "filter (\<lambda>r. \<not> is_array_index (nm r)) (Object_values obj)
         = map snd (filter (\<lambda>p. \<not> is_array_index (fst p)) obj)"
proof -
  let ?idx = "\<lambda>p :: string \<times> 'a. is_array_index (fst p)"
  let ?ps = "sort_key (\<lambda>p. decimal_value (fst p)) (filter ?idx obj) @ filter (\<lambda>p. \<not> ?idx p) obj"
  have "filter (\<lambda>p. \<not> ?idx p) (sort_key (\<lambda>p. decimal_value (fst p)) (filter ?idx obj)) = []"
    by (simp add: filter_empty_conv)
  then have plain: "filter (\<lambda>p. \<not> ?idx p) ?ps = filter (\<lambda>p. \<not> ?idx p) obj"
    by simp
  have "filter (\<lambda>r. \<not> is_array_index (nm r)) (Object_values obj)
        = map snd (filter (\<lambda>p. \<not> is_array_index (nm (snd p))) ?ps)"
    by (simp only: Object_values_def filter_map comp_def)
  also have "filter (\<lambda>p. \<not> is_array_index (nm (snd p))) ?ps = filter (\<lambda>p. \<not> ?idx p) ?ps"
    using assms by (intro filter_cong refl) auto
  finally show ?thesis
    by (simp only: plain)
qed

lemma Object_values_group_rows_plain_part:
  assumes "\<And>k. k \<in> set (group_keys key xs) \<Longrightarrow> nm (group_row key init upd xs k) = k"
  shows "filter (\<lambda>r. \<not> is_array_index (nm r)) (Object_values (group_rows key init upd xs))
         = map (group_row key init upd xs) (filter (\<lambda>k. \<not> is_array_index k) (group_keys key xs))"
proof -
  have "\<forall>p \<in> set (group_rows key init upd xs). nm (snd p) = fst p"
    using assms by (auto simp add: group_rows_def)
  then have "filter (\<lambda>r. \<not> is_array_index (nm r)) (Object_values (group_rows key init upd xs))
        = map snd (filter (\<lambda>p. \<not> is_array_index (fst p)) (group_rows key init upd xs))"
    by (rule Object_values_plain_part)
  then show ?thesis
    by (simp add: group_rows_def filter_map comp_def)
qed

lemma filter_distinct_key:
  "distinct ks \<Longrightarrow> k \<in> set ks \<Longrightarrow> filter (\<lambda>k'. k' = k) ks = [k]"
  by (induction ks) (auto simp add: filter_empty_conv)

lemma filter_keyed_rows:
  assumes "distinct ks" and "k \<in> set ks" and "\<And>k'. k' \<in> set ks \<Longrightarrow> nm (row k') = k'"
  shows "filter (\<lambda>r. nm r = k) (map row ks) = [row k]"
proof -
  have "filter (\<lambda>r. nm r = k) (map row ks) = map row (filter (\<lambda>k'. nm (row k') = k) ks)"
    by (simp add: filter_map comp_def)
  also have "filter (\<lambda>k'. nm (row k') = k) ks = filter (\<lambda>k'. k' = k) ks"
    using assms(3) by (intro filter_cong) auto
  also have "\<dots> = [k]"
    using assms(1,2) by (rule filter_distinct_key)
  finally show ?thesis by simp
qed

lemma filter_perm_single:
  assumes "mset rows = mset rows'" and "filter P rows' = [r]"
  shows "filter P rows = [r]"
proof -
  have "mset (filter P rows) = mset (filter P rows')"
    using assms(1) by simp
  also have "\<dots> = {#r#}"
    by (simp only: assms(2) mset.simps)
  finally show ?thesis
    by (simp only: mset_single_iff)
qed

subsection \<open>Sums in double precision\<close>

lemma num_add_not_NaN: "a \<noteq> NaN \<Longrightarrow> is_finite b \<Longrightarrow> num_add a b \<noteq> NaN"
  by (cases a; cases b) (simp_all add: round_number_def Let_def)

lemma foldl_num_add_not_NaN:
  "a \<noteq> NaN \<Longrightarrow> list_all is_finite xs \<Longrightarrow> foldl num_add a xs \<noteq> NaN"
  by (induction xs arbitrary: a) (simp_all add: num_add_not_NaN del: num_add.simps)

lemma num_sum_not_NaN: "list_all is_finite xs \<Longrightarrow> num_sum xs \<noteq> NaN"
  unfolding num_sum_def by (rule foldl_num_add_not_NaN) simp

lemma desc_key_inj: "desc_key a = desc_key b \<longleftrightarrow> a = b"
  by (cases a; cases b) simp_all

lemma desc_key_le: "a \<noteq> NaN \<Longrightarrow> b \<noteq> NaN \<Longrightarrow> desc_key a \<le> desc_key b \<Longrightarrow> num_le b a"
  by (cases a; cases b) (simp_all add: less_eq_prod_def)

subsection \<open>The rows of the leaderboard\<close>

lemma foldl_team_upd:
  "foldl team_upd r ys =
     r\<lparr>team_leads := team_leads r + length ys,
       team_revenue := foldl num_add (team_revenue r) (map expectedValue ys),
       team_won := team_won r + length (filter (\<lambda>l. status l = Status_Won) ys)\<rparr>"
  by (induction ys arbitrary: r) (simp_all add: team_upd_def del: num_add.simps)

lemma team_group_row:
  assumes "k \<in> owner_key ` set ls"
  shows "group_row owner_key team_init team_upd ls k =
     \<lparr>team_name = k,
      team_leads = length (filter (\<lambda>l. owner_key l = k) ls),
      team_revenue = num_sum (map expectedValue (filter (\<lambda>l. owner_key l = k) ls)),
      team_won = length (filter (\<lambda>l. owner_key l = k \<and> status l = Status_Won) ls)\<rparr>"
proof -
  from assms have "filter (\<lambda>l. owner_key l = k) ls \<noteq> []"
    by (auto simp add: filter_empty_conv)
  then have "hd (filter (\<lambda>l. owner_key l = k) ls) \<in> set (filter (\<lambda>l. owner_key l = k) ls)"
    by (rule hd_in_set)
  then have "owner_key (hd (filter (\<lambda>l. owner_key l = k) ls)) = k"
    by simp
  then show ?thesis
    by (simp add: group_row_def foldl_team_upd team_init_def num_sum_def conj_commute Let_def)
qed

lemma mset_teamData:
  "mset (teamData ls) = mset (map (group_row owner_key team_init team_upd ls) (group_keys owner_key ls))"
  by (simp only: teamData_def mset_sort teamPerformance_rows Object_values_group_rows)

lemma team_row_name:
  "k \<in> set (group_keys owner_key ls) \<Longrightarrow> team_name (group_row owner_key team_init team_upd ls k) = k"
  by (simp add: set_group_keys team_group_row)

lemma team_row_revenue:
  "k \<in> set (group_keys owner_key ls) \<Longrightarrow>
   team_revenue (group_row owner_key team_init team_upd ls k)
   = num_sum (map expectedValue (filter (\<lambda>l. owner_key l = k) ls))"
  by (simp add: set_group_keys team_group_row)

lemma teamData_row:
  assumes "k \<in> owner_key ` set ls" and "k \<notin> set Object_prototype_keys"
  shows "filter (\<lambda>r. team_name r = k) (teamData ls) =
     [\<lparr>team_name = k,
       team_leads = length (filter (\<lambda>l. owner_key l = k) ls),
       team_revenue = num_sum (map expectedValue (filter (\<lambda>l. owner_key l = k) ls)),
       team_won = length (filter (\<lambda>l. owner_key l = k \<and> status l = Status_Won) ls)\<rparr>]"
proof -
  have k: "k \<in> set (group_keys owner_key ls)"
    using assms by (simp add: set_group_keys)
  have "filter (\<lambda>r. team_name r = k)
          (map (group_row owner_key team_init team_upd ls) (group_keys owner_key ls))
        = [group_row owner_key team_init team_upd ls k]"
    using distinct_group_keys k team_row_name by (rule filter_keyed_rows)
  with mset_teamData have "filter (\<lambda>r. team_name r = k) (teamData ls)
        = [group_row owner_key team_init team_upd ls k]"
    by (rule filter_perm_single)
  then show ?thesis
    using assms(1) by (simp add: team_group_row)
qed

lemma set_teamData:
  "set (teamData ls) = group_row owner_key team_init team_upd ls ` set (group_keys owner_key ls)"
  using mset_teamData [of ls, THEN mset_eq_setD] by simp

lemma teamData_names:
  "team_name ` set (teamData ls) = {k \<in> owner_key ` set ls. k \<notin> set Object_prototype_keys}"
proof -
  have "team_name ` set (teamData ls) = set (group_keys owner_key ls)"
    unfolding set_teamData by (force simp add: team_row_name image_iff)
  then show ?thesis
    by (simp add: set_group_keys)
qed

lemma teamData_revenue_not_NaN:
  assumes "\<forall>l \<in> set ls. is_finite (expectedValue l)" and "r \<in> set (teamData ls)"
  shows "team_revenue r \<noteq> NaN"
proof -
  from assms(2) obtain k where k: "k \<in> set (group_keys owner_key ls)"
    and r: "r = group_row owner_key team_init team_upd ls k"
    unfolding set_teamData by auto
  have "list_all is_finite (map expectedValue (filter (\<lambda>l. owner_key l = k) ls))"
    using assms(1) by (simp add: list_all_iff)
  then have "num_sum (map expectedValue (filter (\<lambda>l. owner_key l = k) ls)) \<noteq> NaN"
    by (rule num_sum_not_NaN)
  then show ?thesis
    using k r by (simp add: team_row_revenue)
qed

lemma teamData_sorted:
  assumes "\<forall>l \<in> set ls. is_finite (expectedValue l)"
  shows "sorted_wrt (\<lambda>a b. num_le (team_revenue b) (team_revenue a)) (teamData ls)"
proof -
  have "sorted (map (\<lambda>r. desc_key (team_revenue r)) (teamData ls))"
    by (simp add: teamData_def)
  then have "sorted_wrt (\<lambda>a b. desc_key (team_revenue a) \<le> desc_key (team_revenue b)) (teamData ls)"
    by (simp add: sorted_map)
  then show ?thesis
  proof (rule sorted_wrt_mono_rel [rotated])
    fix a b
    assume "a \<in> set (teamData ls)" and "b \<in> set (teamData ls)"
      and "desc_key (team_revenue a) \<le> desc_key (team_revenue b)"
    then show "num_le (team_revenue b) (team_revenue a)"
      using teamData_revenue_not_NaN [OF assms] by (intro desc_key_le) auto
  qed
qed

lemma teamData_ties:
  "map team_name
     (filter (\<lambda>r. \<not> is_array_index (team_name r) \<and> team_revenue r = v) (teamData ls)) =
   filter (\<lambda>k. \<not> is_array_index k
               \<and> num_sum (map expectedValue (filter (\<lambda>l. owner_key l = k) ls)) = v)
     (group_keys owner_key ls)"
proof -
  let ?row = "group_row owner_key team_init team_upd ls"
  let ?plain = "\<lambda>r. \<not> is_array_index (team_name r)"
  have "filter (\<lambda>r. team_revenue r = v) (teamData ls)
        = filter (\<lambda>r. desc_key (team_revenue r) = desc_key v) (teamData ls)"
    by (simp add: desc_key_inj)
  also have "\<dots> = filter (\<lambda>r. desc_key (team_revenue r) = desc_key v)
                     (Object_values (teamPerformance ls))"
    unfolding teamData_def by (rule sort_key_stable)
  also have "\<dots> = filter (\<lambda>r. team_revenue r = v) (Object_values (teamPerformance ls))"
    by (simp add: desc_key_inj)
  finally have "filter ?plain (filter (\<lambda>r. team_revenue r = v) (teamData ls))
        = filter ?plain (filter (\<lambda>r. team_revenue r = v) (Object_values (teamPerformance ls)))"
    by (rule arg_cong)
  also have "\<dots> = filter (\<lambda>r. team_revenue r = v)
                     (filter ?plain (Object_values (teamPerformance ls)))"
    by (simp add: conj_commute)
  also have "filter ?plain (Object_values (teamPerformance ls))
        = map ?row (filter (\<lambda>k. \<not> is_array_index k) (group_keys owner_key ls))"
    unfolding teamPerformance_rows
    by (rule Object_values_group_rows_plain_part) (rule team_row_name)
  finally have "map team_name (filter (\<lambda>r. ?plain r \<and> team_revenue r = v) (teamData ls))
        = map (\<lambda>k. team_name (?row k))
            (filter (\<lambda>k. team_revenue (?row k) = v)
               (filter (\<lambda>k. \<not> is_array_index k) (group_keys owner_key ls)))"
    by (simp add: filter_map comp_def conj_commute)
  also have "\<dots> = map (\<lambda>k. k)
            (filter (\<lambda>k. team_revenue (?row k) = v)
               (filter (\<lambda>k. \<not> is_array_index k) (group_keys owner_key ls)))"
    by (intro map_cong refl) (simp add: team_row_name)
  also have "filter (\<lambda>k. team_revenue (?row k) = v)
               (filter (\<lambda>k. \<not> is_array_index k) (group_keys owner_key ls))
        = filter (\<lambda>k. num_sum (map expectedValue (filter (\<lambda>l. owner_key l = k) ls)) = v)
            (filter (\<lambda>k. \<not> is_array_index k) (group_keys owner_key ls))"
    by (intro filter_cong refl) (simp add: team_row_revenue)
  finally show ?thesis by simp
qed

subsection \<open>The funnel\<close>

lemma Stage_value_inj: "Stage_value a = Stage_value b \<longleftrightarrow> a = b"
  by (cases a; cases b) simp_all

lemma Stage_value_not_inherited: "Stage_value s \<notin> set Object_prototype_keys"
  by (cases s) (simp_all add: Object_prototype_keys_def)

lemma tally_step:
  "tally (funnelRawCounts_step acc l) k =
     tally acc k + (if Stage_value (stage l) = k then 1 else 0)"
  by (simp add: tally_def funnelRawCounts_step_def set_property_def update_conv' Let_def)

lemma tally_foldl:
  "tally (foldl funnelRawCounts_step acc ls) k =
     tally acc k + length (filter (\<lambda>l. Stage_value (stage l) = k) ls)"
  by (induction ls arbitrary: acc) (simp_all add: tally_step)

lemma funnelRawCounts_count:
  "(case map_of (funnelRawCounts ls) (Stage_value s) of Some n \<Rightarrow> n | None \<Rightarrow> 0)
   = length (filter (\<lambda>l. stage l = s) ls)"
  using tally_foldl [of "[]" ls "Stage_value s"]
  by (simp add: tally_def funnelRawCounts_def Stage_value_inj)

lemma funnelData_rows:
  "map (\<lambda>r. (funnel_name r, funnel_value r)) (funnelData ls) =
     map (\<lambda>s. (s, length (filter (\<lambda>l. stage l = s) ls)))
       [Stage_New, Stage_Contacted, Stage_Qualified, Stage_Proposal, Stage_Won]"
  by (simp add: funnelData_def stageOrder_def funnelRawCounts_count upt_rec)

lemma stage_partition:
  "length (filter (\<lambda>l. stage l = Stage_New) ls)
   + length (filter (\<lambda>l. stage l = Stage_Contacted) ls)
   + length (filter (\<lambda>l. stage l = Stage_Qualified) ls)
   + length (filter (\<lambda>l. stage l = Stage_Proposal) ls)
   + length (filter (\<lambda>l. stage l = Stage_Won) ls)
   + length (filter (\<lambda>l. stage l = Stage_Lost) ls) = length ls"
proof (induction ls)
  case Nil
  show ?case by simp
next
  case (Cons l ls)
  then show ?case by (cases "stage l") simp_all
qed

lemma funnelData_sum:
  "sum_list (map funnel_value (funnelData ls)) + length (filter (\<lambda>l. stage l = Stage_Lost) ls)
   = length ls"
proof -
  have "map funnel_value (funnelData ls) = map snd (map (\<lambda>r. (funnel_name r, funnel_value r)) (funnelData ls))"
    by (simp add: comp_def)
  then have "sum_list (map funnel_value (funnelData ls)) =
      length (filter (\<lambda>l. stage l = Stage_New) ls)
      + length (filter (\<lambda>l. stage l = Stage_Contacted) ls)
      + length (filter (\<lambda>l. stage l = Stage_Qualified) ls)
      + length (filter (\<lambda>l. stage l = Stage_Proposal) ls)
      + length (filter (\<lambda>l. stage l = Stage_Won) ls)"
    by (simp only: funnelData_rows) simp
  then show ?thesis
    using stage_partition [of ls] by simp
qed

subsection \<open>The rows of the revenue trend\<close>

lemma month_key_has_dash: "CHR ''-'' \<in> set (month_key d)"
  by (cases d) (simp_all add: month_key_def)

lemma dash_not_inherited: "CHR ''-'' \<in> set k \<Longrightarrow> k \<notin> set Object_prototype_keys"
  by (auto simp add: Object_prototype_keys_def)

lemma dash_not_digit: "\<not> is_digit CHR ''-''"
  by (simp add: is_digit_def less_eq_char_def)

lemma dash_not_array_index: "CHR ''-'' \<in> set k \<Longrightarrow> \<not> is_array_index k"
  using dash_not_digit by (auto simp add: is_array_index_def list_all_iff)

lemma rev_key_plain:
  "rev_key nd l \<notin> set Object_prototype_keys" "\<not> is_array_index (rev_key nd l)"
  by (simp_all add: rev_key_def month_key_has_dash dash_not_inherited dash_not_array_index)

lemma set_rev_group_keys: "set (group_keys (rev_key nd) ls) = rev_key nd ` set ls"
  by (auto simp add: set_group_keys rev_key_plain)

lemma foldl_rev_upd:
  "foldl rev_upd r ys =
     r\<lparr>rev_expected := foldl num_add (rev_expected r) (map expectedValue ys),
       rev_closed := foldl num_add (rev_closed r)
                       (map dealValue (filter (\<lambda>l. status l = Status_Won) ys))\<rparr>"
  by (induction ys arbitrary: r) (simp_all add: rev_upd_def del: num_add.simps)

lemma rev_group_row:
  assumes "k \<in> rev_key nd ` set ls"
  shows "group_row (rev_key nd) (rev_init nd) rev_upd ls k =
     \<lparr>rev_name = k,
      rev_expected = num_sum (map expectedValue (filter (\<lambda>l. rev_key nd l = k) ls)),
      rev_closed = num_sum (map dealValue
                     (filter (\<lambda>l. rev_key nd l = k \<and> status l = Status_Won) ls))\<rparr>"
proof -
  from assms have "filter (\<lambda>l. rev_key nd l = k) ls \<noteq> []"
    by (auto simp add: filter_empty_conv)
  then have "hd (filter (\<lambda>l. rev_key nd l = k) ls) \<in> set (filter (\<lambda>l. rev_key nd l = k) ls)"
    by (rule hd_in_set)
  then have "rev_key nd (hd (filter (\<lambda>l. rev_key nd l = k) ls)) = k"
    by simp
  then show ?thesis
    by (simp add: group_row_def foldl_rev_upd rev_init_def num_sum_def conj_commute Let_def)
qed

lemma rev_row_name:
  "k \<in> set (group_keys (rev_key nd) ls) \<Longrightarrow>
   rev_name (group_row (rev_key nd) (rev_init nd) rev_upd ls k) = k"
  by (simp add: set_rev_group_keys rev_group_row)

lemma mset_revenueData:
  "mset (revenueData nd ls) =
   mset (map (group_row (rev_key nd) (rev_init nd) rev_upd ls) (group_keys (rev_key nd) ls))"
  by (simp only: revenueData_def mset_sort revenueByMonth_rows Object_values_group_rows)

lemma revenueData_row:
  assumes "k \<in> rev_key nd ` set ls"
  shows "filter (\<lambda>r. rev_name r = k) (revenueData nd ls) =
     [\<lparr>rev_name = k,
       rev_expected = num_sum (map expectedValue (filter (\<lambda>l. rev_key nd l = k) ls)),
       rev_closed = num_sum (map dealValue
                      (filter (\<lambda>l. rev_key nd l = k \<and> status l = Status_Won) ls))\<rparr>]"
proof -
  have k: "k \<in> set (group_keys (rev_key nd) ls)"
    using assms by (simp add: set_rev_group_keys)
  have "filter (\<lambda>r. rev_name r = k)
          (map (group_row (rev_key nd) (rev_init nd) rev_upd ls) (group_keys (rev_key nd) ls))
        = [group_row (rev_key nd) (rev_init nd) rev_upd ls k]"
    using distinct_group_keys k rev_row_name by (rule filter_keyed_rows)
  with mset_revenueData have "filter (\<lambda>r. rev_name r = k) (revenueData nd ls)
        = [group_row (rev_key nd) (rev_init nd) rev_upd ls k]"
    by (rule filter_perm_single)
  then show ?thesis
    using assms by (simp add: rev_group_row)
qed

lemma mset_revenueData_names:
  "mset (map rev_name (revenueData nd ls)) = mset (group_keys (rev_key nd) ls)"
proof -
  have "mset (map rev_name (revenueData nd ls)) =
        mset (map rev_name (map (group_row (rev_key nd) (rev_init nd) rev_upd ls)
                (group_keys (rev_key nd) ls)))"
    using mset_revenueData [of nd ls] by (simp only: mset_map)
  also have "map rev_name (map (group_row (rev_key nd) (rev_init nd) rev_upd ls)
                (group_keys (rev_key nd) ls)) = map (\<lambda>k. k) (group_keys (rev_key nd) ls)"
    unfolding map_map by (intro map_cong refl) (simp add: rev_row_name)
  finally show ?thesis by simp
qed

lemma revenueData_names: "rev_name ` set (revenueData nd ls) = rev_key nd ` set ls"
  using mset_revenueData_names [of nd ls, THEN mset_eq_setD]
  by (simp add: set_rev_group_keys)

lemma revenueData_ascending: "sorted_wrt (<) (map rev_name (revenueData nd ls))"
proof -
  have "sorted (map rev_name (revenueData nd ls))"
    by (simp add: revenueData_def)
  moreover have "distinct (map rev_name (revenueData nd ls))"
    using mset_revenueData_names [of nd ls, THEN mset_eq_imp_distinct_iff]
    by (simp add: distinct_group_keys)
  ultimately show ?thesis
    by (simp add: strict_sorted_iff)
qed

lemma revenueData_no_won:
  assumes "k \<in> rev_key nd ` set ls"
    and "\<forall>l \<in> set ls. rev_key nd l = k \<longrightarrow> status l \<noteq> Status_Won"
  shows "\<exists>r \<in> set (revenueData nd ls). rev_name r = k \<and> rev_closed r = Finite 0"
proof -
  have none: "filter (\<lambda>l. rev_key nd l = k \<and> status l = Status_Won) ls = []"
    using assms(2) by (auto simp add: filter_empty_conv)
  let ?r = "\<lparr>rev_name = k,
       rev_expected = num_sum (map expectedValue (filter (\<lambda>l. rev_key nd l = k) ls)),
       rev_closed = Finite 0\<rparr>"
  have "filter (\<lambda>r. rev_name r = k) (revenueData nd ls) = [?r]"
    using revenueData_row [OF assms(1)] none by (simp add: num_sum_def)
  then have "?r \<in> set (filter (\<lambda>r. rev_name r = k) (revenueData nd ls))"
    by simp
  then have "?r \<in> set (revenueData nd ls)"
    by simp
  then show ?thesis by force
qed

subsection \<open>Month keys tell the months apart\<close>

lemma digit_code_nat: "d < 10 \<Longrightarrow> of_char (''0123456789'' ! d) = 48 + d"
proof -
  assume "d < 10"
  then have "d \<in> {0, 1, 2, 3, 4, 5, 6, 7, 8, 9}"
    by auto
  then show ?thesis
    by auto
qed

lemma digit_code: "d < 10 \<Longrightarrow> of_char (''0123456789'' ! d) = 48 + int d"
proof -
  assume "d < 10"
  then have "d \<in> {0, 1, 2, 3, 4, 5, 6, 7, 8, 9}"
    by auto
  then show ?thesis
    by auto
qed

lemma digit_is_digit: "d < 10 \<Longrightarrow> is_digit (''0123456789'' ! d)"
  using digit_code_nat [of d] by (simp add: is_digit_def less_eq_char_def)

lemma decimal_value_snoc:
  "decimal_value (s @ [c]) = 10 * decimal_value s + (of_char c - 48)"
  by (simp add: decimal_value_def)

lemma decimal_value_String_nat: "decimal_value (String_nat n) = int n"
proof (induction n rule: String_nat.induct)
  case (1 n)
  show ?case
  proof (cases "n < 10")
    case True
    then show ?thesis
      using digit_code [of n] by (simp add: decimal_value_def String_nat.simps)
  next
    case False
    have "decimal_value (String_nat n) =
          10 * decimal_value (String_nat (n div 10)) + (of_char (''0123456789'' ! (n mod 10)) - 48)"
      using False by (subst String_nat.simps) (simp add: decimal_value_snoc)
    also have "\<dots> = 10 * int (n div 10) + int (n mod 10)"
      using "1.IH" [OF False] digit_code [of "n mod 10"] by simp
    also have "\<dots> = int (10 * (n div 10) + n mod 10)"
      by (simp only: of_nat_add of_nat_mult of_nat_numeral)
    also have "\<dots> = int n"
      by (simp only: mult_div_mod_eq)
    finally show ?thesis .
  qed
qed

lemma String_nat_inj: "String_nat m = String_nat n \<Longrightarrow> m = n"
proof -
  assume "String_nat m = String_nat n"
  then have "decimal_value (String_nat m) = decimal_value (String_nat n)"
    by (rule arg_cong)
  then have "int m = int n"
    by (simp only: decimal_value_String_nat)
  then show "m = n" by simp
qed

lemma String_nat_digits: "list_all is_digit (String_nat n)"
proof (induction n rule: String_nat.induct)
  case (1 n)
  show ?case
  proof (cases "n < 10")
    case True
    then show ?thesis by (simp add: digit_is_digit String_nat.simps)
  next
    case False
    then show ?thesis
      using "1.IH" [OF False] digit_is_digit [of "n mod 10"]
      by (subst String_nat.simps) simp
  qed
qed

lemma String_nat_not_Nil: "String_nat n \<noteq> []"
  by (subst String_nat.simps) simp

lemma String_nat_no_dash: "hd (String_nat n) \<noteq> CHR ''-''"
proof -
  have "hd (String_nat n) \<in> set (String_nat n)"
    using String_nat_not_Nil by (rule hd_in_set)
  then have "is_digit (hd (String_nat n))"
    using String_nat_digits [of n] by (simp add: list_all_iff)
  then show ?thesis
    by (auto simp add: is_digit_def less_eq_char_def)
qed

lemma String_int_inj: "String_int i = String_int j \<Longrightarrow> i = j"
proof -
  assume eq: "String_int i = String_int j"
  consider "i < 0" "j < 0" | "i < 0" "0 \<le> j" | "0 \<le> i" "j < 0" | "0 \<le> i" "0 \<le> j"
    by linarith
  then show ?thesis
  proof cases
    case 1
    with eq have "String_nat (nat (- i)) = String_nat (nat (- j))"
      by (simp add: String_int_def)
    then have "nat (- i) = nat (- j)" by (rule String_nat_inj)
    with 1 show ?thesis by simp
  next
    case 2
    with eq have "String_nat (nat j) = CHR ''-'' # String_nat (nat (- i))"
      by (simp add: String_int_def)
    then have "hd (String_nat (nat j)) = CHR ''-''"
      by simp
    then show ?thesis using String_nat_no_dash by simp
  next
    case 3
    with eq have "String_nat (nat i) = CHR ''-'' # String_nat (nat (- j))"
      by (simp add: String_int_def)
    then have "hd (String_nat (nat i)) = CHR ''-''"
      by simp
    then show ?thesis using String_nat_no_dash by simp
  next
    case 4
    with eq have "String_nat (nat i) = String_nat (nat j)"
      by (simp add: String_int_def)
    then have "nat i = nat j" by (rule String_nat_inj)
    with 4 show ?thesis by simp
  qed
qed

lemma length_String_nat_small: "n < 100 \<Longrightarrow> length (String_nat n) \<le> 2"
proof -
  assume "n < 100"
  show ?thesis
  proof (cases "n < 10")
    case True
    then show ?thesis by (simp add: String_nat.simps)
  next
    case False
    moreover from \<open>n < 100\<close> have "n div 10 < 10" by simp
    ultimately show ?thesis by (simp add: String_nat.simps)
  qed
qed

lemma length_padStart2: "length s \<le> 2 \<Longrightarrow> length (padStart2 s) = 2"
  by (simp add: padStart2_def)

lemma decimal_value_zeros: "decimal_value (replicate k CHR ''0'' @ s) = decimal_value s"
proof -
  have "foldl (\<lambda>n c. 10 * n + (of_char c - 48)) (0::int) (replicate k CHR ''0'') = 0"
    by (induction k) simp_all
  then show ?thesis by (simp add: decimal_value_def)
qed

lemma zeros_digits: "list_all is_digit (replicate k CHR ''0'')"
  by (induction k) (simp_all add: is_digit_def less_eq_char_def)

lemma month_part:
  assumes "m < 12"
  shows "length (padStart2 (String_nat (m + 1))) = 2"
    and "decimal_value (padStart2 (String_nat (m + 1))) = int m + 1"
    and "list_all is_digit (padStart2 (String_nat (m + 1)))"
proof -
  from assms have "m + 1 < 100" by simp
  then have "length (String_nat (m + 1)) \<le> 2"
    by (rule length_String_nat_small)
  then show "length (padStart2 (String_nat (m + 1))) = 2"
    by (rule length_padStart2)
  show "decimal_value (padStart2 (String_nat (m + 1))) = int m + 1"
    by (simp add: padStart2_def decimal_value_zeros decimal_value_String_nat)
  show "list_all is_digit (padStart2 (String_nat (m + 1)))"
    unfolding padStart2_def list_all_append
    using zeros_digits String_nat_digits by (intro conjI)
qed

lemma month_key_inj:
  assumes "valid_date d" and "valid_date d'" and "month_key d = month_key d'"
  shows "d = d'"
proof (cases d; cases d')
  fix y m y' m'
  assume d: "d = LocalDate y m" and d': "d' = LocalDate y' m'"
  with assms have m: "m < 12" and m': "m' < 12" by simp_all
  have "(String_int y @ ''-'') @ padStart2 (String_nat (m + 1))
        = (String_int y' @ ''-'') @ padStart2 (String_nat (m' + 1))"
    using assms(3) d d' by (simp add: month_key_def)
  moreover have "length (padStart2 (String_nat (m + 1))) = length (padStart2 (String_nat (m' + 1)))"
    using month_part(1) [OF m] month_part(1) [OF m'] by simp
  ultimately have "String_int y @ ''-'' = String_int y' @ ''-''
      \<and> padStart2 (String_nat (m + 1)) = padStart2 (String_nat (m' + 1))"
    by (metis append_eq_append_conv)
  then have "String_int y = String_int y'"
    and "decimal_value (padStart2 (String_nat (m + 1)))
         = decimal_value (padStart2 (String_nat (m' + 1)))"
    by simp_all
  then have "y = y'" and "int m + 1 = int m' + 1"
    using month_part(2) [OF m] month_part(2) [OF m'] by (simp_all add: String_int_inj)
  with d d' show ?thesis by simp
next
  fix y m
  assume d: "d = LocalDate y m" and d': "d' = InvalidDate"
  with assms have m: "m < 12" by simp
  have "(String_int y @ ''-'') @ padStart2 (String_nat (m + 1)) = ''NaN-N'' @ ''aN''"
    using assms(3) d d' by (simp add: month_key_def)
  moreover have "length (padStart2 (String_nat (m + 1))) = length ''aN''"
    using month_part(1) [OF m] by simp
  ultimately have "(String_int y @ ''-'') = ''NaN-N'' \<and> padStart2 (String_nat (m + 1)) = ''aN''"
    by (metis append_eq_append_conv)
  then have "list_all is_digit ''aN''"
    using month_part(3) [OF m] by simp
  then show ?thesis
    by (simp add: is_digit_def less_eq_char_def)
next
  fix y m
  assume d': "d' = LocalDate y m" and d: "d = InvalidDate"
  with assms have m: "m < 12" by simp
  have "(String_int y @ ''-'') @ padStart2 (String_nat (m + 1)) = ''NaN-N'' @ ''aN''"
    using assms(3) d d' by (simp add: month_key_def)
  moreover have "length (padStart2 (String_nat (m + 1))) = length ''aN''"
    using month_part(1) [OF m] by simp
  ultimately have "(String_int y @ ''-'') = ''NaN-N'' \<and> padStart2 (String_nat (m + 1)) = ''aN''"
    by (metis append_eq_append_conv)
  then have "list_all is_digit ''aN''"
    using month_part(3) [OF m] by simp
  then show ?thesis
    by (simp add: is_digit_def less_eq_char_def)
next
  assume "d = InvalidDate" and "d' = InvalidDate"
  then show ?thesis by simp
qed

subsection \<open>The rows of the conversion by source\<close>

lemma Source_value_inj: "Source_value a = Source_value b \<longleftrightarrow> a = b"
  by (cases a; cases b) simp_all

lemma Source_value_not_inherited: "Source_value s \<notin> set Object_prototype_keys"
  by (cases s) (simp_all add: Object_prototype_keys_def)

lemma set_stat_group_keys: "set (group_keys stat_key ls) = Source_value ` source ` set ls"
  by (auto simp add: set_group_keys stat_key_def Source_value_not_inherited)

lemma foldl_stat_upd:
  "foldl stat_upd r ys =
     r\<lparr>stat_total := stat_total r + length ys,
       stat_won := stat_won r + length (filter (\<lambda>l. status l = Status_Won) ys)\<rparr>"
  by (induction ys arbitrary: r) (simp_all add: stat_upd_def)

lemma stat_group_row:
  assumes "s \<in> source ` set ls"
  shows "group_row stat_key stat_init stat_upd ls (Source_value s) =
     \<lparr>stat_name = s,
      stat_total = length (filter (\<lambda>l. source l = s) ls),
      stat_won = length (filter (\<lambda>l. source l = s \<and> status l = Status_Won) ls)\<rparr>"
proof -
  from assms have "filter (\<lambda>l. source l = s) ls \<noteq> []"
    by (auto simp add: filter_empty_conv)
  then have "hd (filter (\<lambda>l. source l = s) ls) \<in> set (filter (\<lambda>l. source l = s) ls)"
    by (rule hd_in_set)
  then have "source (hd (filter (\<lambda>l. source l = s) ls)) = s"
    by simp
  then show ?thesis
    by (simp add: group_row_def foldl_stat_upd stat_init_def stat_key_def Source_value_inj
        conj_commute Let_def)
qed

lemma mset_sourceConversionData:
  "mset (sourceConversionData ls) =
   mset (map (\<lambda>k. conversion_row (group_row stat_key stat_init stat_upd ls k))
          (group_keys stat_key ls))"
proof -
  have "sourceConversionData ls = map conversion_row (Object_values (sourceStats ls))"
    by (simp add: sourceConversionData_def conversion_row_def)
  then have "mset (sourceConversionData ls) =
             image_mset conversion_row (mset (Object_values (sourceStats ls)))"
    by simp
  also have "\<dots> = image_mset conversion_row
                     (mset (map (group_row stat_key stat_init stat_upd ls) (group_keys stat_key ls)))"
    by (simp only: sourceStats_rows Object_values_group_rows)
  finally show ?thesis
    by (simp add: multiset.map_comp comp_def)
qed

lemma sourceConversionData_row:
  assumes "s \<in> source ` set ls"
  shows "filter (\<lambda>r. conv_name r = s) (sourceConversionData ls) =
     [\<lparr>conv_name = s,
       conv_rate = toFixed1 (dbl (dbl
                     (of_nat (length (filter (\<lambda>l. source l = s \<and> status l = Status_Won) ls))
                      / of_nat (length (filter (\<lambda>l. source l = s) ls))) * 100)),
       conv_total = length (filter (\<lambda>l. source l = s) ls)\<rparr>]"
proof -
  let ?row = "\<lambda>k. conversion_row (group_row stat_key stat_init stat_upd ls k)"
  have k: "Source_value s \<in> set (group_keys stat_key ls)"
    using assms by (simp add: set_stat_group_keys)
  have name: "Source_value (conv_name (?row k')) = k'" if "k' \<in> set (group_keys stat_key ls)" for k'
  proof -
    from that obtain s' where "s' \<in> source ` set ls" and "k' = Source_value s'"
      by (auto simp add: set_stat_group_keys)
    then show ?thesis
      by (simp add: stat_group_row conversion_row_def)
  qed
  have "filter (\<lambda>r. Source_value (conv_name r) = Source_value s) (map ?row (group_keys stat_key ls))
        = [?row (Source_value s)]"
    using distinct_group_keys k name by (rule filter_keyed_rows)
  with mset_sourceConversionData
  have "filter (\<lambda>r. Source_value (conv_name r) = Source_value s) (sourceConversionData ls)
        = [?row (Source_value s)]"
    by (rule filter_perm_single)
  moreover have "0 < length (filter (\<lambda>l. source l = s) ls)"
    using assms by (auto simp add: filter_empty_conv)
  ultimately show ?thesis
    using assms by (simp add: Source_value_inj stat_group_row conversion_row_def)
qed

lemma sourceConversionData_names:
  "conv_name ` set (sourceConversionData ls) = source ` set ls"
proof -
  have "set (sourceConversionData ls) =
        (\<lambda>k. conversion_row (group_row stat_key stat_init stat_upd ls k)) ` set (group_keys stat_key ls)"
    using mset_sourceConversionData [of ls, THEN mset_eq_setD] by simp
  then have "conv_name ` set (sourceConversionData ls) =
        (\<lambda>s. conv_name (conversion_row (group_row stat_key stat_init stat_upd ls (Source_value s))))
          ` source ` set ls"
    by (simp add: set_stat_group_keys image_image)
  also have "\<dots> = (\<lambda>s. s) ` source ` set ls"
    by (intro image_cong refl) (simp add: stat_group_row conversion_row_def)
  finally show ?thesis by simp
qed


subsection \<open>How far the double-precision win rate is from the exact one\<close>

lemma pow2_powi: "pow2 e = 2 powi e"
  by (simp add: pow2_def power_int_def inverse_eq_divide power_one_over)

lemma pow2_pos: "0 < pow2 e"
  by (simp add: pow2_powi)

lemma pow2_mono: "e \<le> e' \<Longrightarrow> pow2 e \<le> pow2 e'"
  by (simp add: pow2_powi power_int_increasing)

lemma pow2_less_imp: "pow2 e \<le> a \<Longrightarrow> a < pow2 k \<Longrightarrow> e < k"
proof (rule ccontr)
  assume "pow2 e \<le> a" and "a < pow2 k" and "\<not> e < k"
  then have "pow2 k \<le> pow2 e" by (intro pow2_mono) simp
  with \<open>pow2 e \<le> a\<close> \<open>a < pow2 k\<close> show False by simp
qed

lemma pow2_nat: "0 \<le> k \<Longrightarrow> pow2 k = 2 ^ nat k"
  by (simp add: pow2_def)

lemma pow2_half: "pow2 (e - 1) = pow2 e / 2"
  by (simp add: pow2_powi power_int_diff)

lemma bit_length_nonpos: "n \<le> 0 \<Longrightarrow> bit_length n = 0"
  by (simp add: bit_length.simps)

lemma bit_length_pos: "0 < n \<Longrightarrow> bit_length n = 1 + bit_length (n div 2)"
  by (subst bit_length.simps) simp

lemma bit_length_nonneg: "0 \<le> bit_length n"
proof (induction n rule: bit_length.induct)
  case (1 n)
  then show ?case
    by (cases "n \<le> 0") (simp_all add: bit_length_nonpos bit_length_pos)
qed

lemma bit_length_mono: "m \<le> n \<Longrightarrow> bit_length m \<le> bit_length n"
proof (induction n arbitrary: m rule: bit_length.induct)
  case (1 n)
  show ?case
  proof (cases "m \<le> 0")
    case True
    then show ?thesis by (simp add: bit_length_nonpos bit_length_nonneg)
  next
    case False
    with "1.prems" have n: "\<not> n \<le> 0" by simp
    have "m div 2 \<le> n div 2"
      using "1.prems" by (rule zdiv_mono1) simp
    then have "bit_length (m div 2) \<le> bit_length (n div 2)"
      using n by (rule "1.IH" [rotated])
    then show ?thesis
      using False n by (simp add: bit_length_pos)
  qed
qed

lemma bit_length_double: "0 < n \<Longrightarrow> bit_length (2 * n) = bit_length n + 1"
  by (subst bit_length.simps) simp

lemma bit_length_shift: "0 < n \<Longrightarrow> bit_length (2 ^ k * n) = bit_length n + int k"
proof (induction k)
  case 0
  show ?case by simp
next
  case (Suc k)
  then have "bit_length (2 * (2 ^ k * n)) = bit_length (2 ^ k * n) + 1"
    by (intro bit_length_double) simp
  with Suc show ?case by (simp add: mult.assoc)
qed

lemma binary_exponent_less:
  assumes "0 < a" and "a < pow2 k" and "0 \<le> k"
  shows "binary_exponent a < k"
proof -
  obtain p q where pq: "quotient_of a = (p, q)"
    by (cases "quotient_of a")
  then have q: "0 < q" and a: "a = of_int p / of_int q"
    by (simp_all add: quotient_of_denom_pos quotient_of_div)
  let ?e = "bit_length p - bit_length q"
  show ?thesis
  proof (cases "pow2 ?e \<le> a")
    case True
    then have "?e < k" using assms(2) by (rule pow2_less_imp)
    with True pq show ?thesis by (simp add: binary_exponent_def)
  next
    case False
    have "of_int p < (2 ^ nat k) * (of_int q :: rat)"
      using assms(2,3) q a by (simp add: pow2_nat pos_divide_less_eq mult.commute)
    then have "(of_int p :: rat) < of_int (2 ^ nat k * q)"
      by simp
    then have "p < 2 ^ nat k * q"
      by (simp only: of_int_less_iff)
    then have "p \<le> 2 ^ nat k * q"
      by simp
    then have "bit_length p \<le> bit_length (2 ^ nat k * q)"
      by (rule bit_length_mono)
    also have "\<dots> = bit_length q + int (nat k)"
      using q by (rule bit_length_shift)
    finally have "?e \<le> k"
      using assms(3) by simp
    with False pq show ?thesis by (simp add: binary_exponent_def)
  qed
qed

lemma round_half_even_error: "\<bar>of_int (round_half_even y) - y\<bar> \<le> 1 / 2"
proof -
  have "of_int \<lfloor>y\<rfloor> \<le> y" and "y < of_int \<lfloor>y\<rfloor> + 1"
    by linarith+
  then show ?thesis
    by (auto simp add: round_half_even_def Let_def)
qed

lemma round_half_even_nonneg: "0 \<le> y \<Longrightarrow> 0 \<le> round_half_even y"
proof -
  assume "0 \<le> y"
  then have "0 \<le> \<lfloor>y\<rfloor>" by simp
  then show ?thesis
    by (simp add: round_half_even_def Let_def)
qed

lemma dbl_pos_eq:
  "0 < a \<Longrightarrow> dbl a = of_int (round_half_even (a / pow2 (max (binary_exponent a) (- 1022) - 52)))
                       * pow2 (max (binary_exponent a) (- 1022) - 52)"
  by (simp add: dbl_def Let_def)

lemma dbl_nonneg: "0 \<le> a \<Longrightarrow> 0 \<le> dbl a"
proof (cases "a = 0")
  case True
  then show ?thesis by (simp add: dbl_def)
next
  case False
  assume "0 \<le> a"
  with False have a: "0 < a" by simp
  have "0 \<le> a / pow2 (max (binary_exponent a) (- 1022) - 52)"
    using a pow2_pos [of "max (binary_exponent a) (- 1022) - 52"] by simp
  then have "0 \<le> round_half_even (a / pow2 (max (binary_exponent a) (- 1022) - 52))"
    by (rule round_half_even_nonneg)
  then show ?thesis
    using a pow2_pos [of "max (binary_exponent a) (- 1022) - 52"]
    by (simp add: dbl_pos_eq)
qed

lemma dbl_error:
  assumes "0 < a" and "a < pow2 k" and "0 \<le> k"
  shows "\<bar>dbl a - a\<bar> \<le> pow2 (k - 54)"
proof -
  let ?u = "pow2 (max (binary_exponent a) (- 1022) - 52)"
  have u: "0 < ?u" by (rule pow2_pos)
  have "binary_exponent a < k"
    using assms by (rule binary_exponent_less)
  then have "max (binary_exponent a) (- 1022) - 52 \<le> k - 53"
    using assms(3) by simp
  then have bound: "?u \<le> pow2 (k - 53)"
    by (rule pow2_mono)
  have "dbl a - a = (of_int (round_half_even (a / ?u)) - a / ?u) * ?u"
    using u assms(1) by (simp add: dbl_pos_eq algebra_simps)
  then have "\<bar>dbl a - a\<bar> = \<bar>of_int (round_half_even (a / ?u)) - a / ?u\<bar> * ?u"
    using u by (simp add: abs_mult)
  also have "\<dots> \<le> (1 / 2) * ?u"
    using round_half_even_error [of "a / ?u"] u by (intro mult_right_mono) simp_all
  also have "\<dots> \<le> (1 / 2) * pow2 (k - 53)"
    using bound by simp
  also have "\<dots> = pow2 (k - 54)"
    using pow2_half [of "k - 53"] by simp
  finally show ?thesis .
qed


lemma floor_half: "\<lfloor>1 / 2 :: rat\<rfloor> = 0"
  by (rule floor_unique) simp_all

lemma toFixed1_nonneg: "0 \<le> x \<Longrightarrow> toFixed1 x = of_int \<lfloor>x * 10 + 1 / 2\<rfloor> / 10"
  by (cases "x = 0") (simp_all add: toFixed1_def floor_half)

lemma floor_stable:
  fixes x y :: rat
  assumes "of_int n + d \<le> y" and "y \<le> of_int n + 1 - d" and "\<bar>x - y\<bar> < d"
  shows "\<lfloor>x\<rfloor> = n"
proof (rule floor_unique)
  show "of_int n \<le> x" using assms by linarith
  show "x < of_int n + 1" using assms by linarith
qed

lemma abs_scale:
  fixes a b c :: rat
  assumes "0 \<le> c"
  shows "\<bar>a * c - b * c\<bar> = \<bar>a - b\<bar> * c"
proof -
  have "a * c - b * c = (a - b) * c"
    by (simp only: left_diff_distrib)
  then have "\<bar>a * c - b * c\<bar> = \<bar>a - b\<bar> * \<bar>c\<bar>"
    by (simp only: abs_mult)
  with assms show ?thesis
    by (simp only: abs_of_nonneg)
qed

lemma win_rate_error:
  assumes "0 < w" and "w \<le> t"
  shows "0 \<le> dbl (dbl (of_nat w / of_nat t) * 100)"
    and "\<bar>dbl (dbl (of_nat w / of_nat t) * 100) - of_nat w / of_nat t * 100\<bar> \<le> 164 / 2 ^ 53"
proof -
  let ?a = "of_nat w / of_nat t :: rat"
  let ?q = "dbl ?a"
  from assms have t: "0 < t" by simp
  have a: "0 < ?a" "?a \<le> 1"
    using assms t by simp_all
  have "?a < pow2 1"
    using a(2) by (simp add: pow2_def)
  with a(1) have "\<bar>?q - ?a\<bar> \<le> pow2 (1 - 54)"
    by (rule dbl_error) simp
  then have q_err: "\<bar>?q - ?a\<bar> \<le> 1 / 2 ^ 53"
    by (simp add: pow2_def)
  have q0: "0 \<le> ?q"
    using a(1) by (intro dbl_nonneg) simp
  show nonneg: "0 \<le> dbl (?q * 100)"
    using q0 by (intro dbl_nonneg) simp
  show "\<bar>dbl (?q * 100) - ?a * 100\<bar> \<le> 164 / 2 ^ 53"
  proof (cases "?q = 0")
    case True
    then have "?a \<le> 1 / 2 ^ 53"
      using q_err a(1) by simp
    then have "?a * 100 \<le> 100 / 2 ^ 53"
      by simp
    with True a(1) show ?thesis
      by (simp add: dbl_def)
  next
    case False
    with q0 have qpos: "0 < ?q * 100" by simp
    have "?q \<le> 1 + 1 / 2 ^ 53"
      using q_err a(2) by linarith
    then have "?q * 100 < 128"
      by simp
    then have "?q * 100 < pow2 7"
      by (simp add: pow2_def)
    with qpos have "\<bar>dbl (?q * 100) - ?q * 100\<bar> \<le> pow2 (7 - 54)"
      by (rule dbl_error) simp
    then have x_err: "\<bar>dbl (?q * 100) - ?q * 100\<bar> \<le> 64 / 2 ^ 53"
      by (simp add: pow2_def)
    have "\<bar>?q * 100 - ?a * 100\<bar> = \<bar>?q - ?a\<bar> * 100"
      by (rule abs_scale) simp
    also have "\<dots> \<le> 100 / 2 ^ 53"
      using q_err by simp
    finally show ?thesis
      using x_err by linarith
  qed
qed


lemma spec_round_half_away_nonneg:
  "0 \<le> x \<Longrightarrow> spec_round_half_away x = of_int \<lfloor>x * 10 + 1 / 2\<rfloor> / 10"
  by (cases "x = 0") (simp_all add: spec_round_half_away_def floor_half)

lemma fraction_between:
  fixes N D :: nat
  assumes "0 < D" and "N mod D \<noteq> 0"
  shows "of_int (int (N div D)) + 1 / of_nat D \<le> (of_nat N / of_nat D :: rat)"
    and "(of_nat N / of_nat D :: rat) \<le> of_int (int (N div D)) + 1 - 1 / of_nat D"
proof -
  have D: "0 < (of_nat D :: rat)" using assms(1) by simp
  have "N = D * (N div D) + N mod D" by simp
  then have "(of_nat N :: rat) = of_nat (D * (N div D) + N mod D)"
    by (rule arg_cong)
  then have N: "(of_nat N :: rat) = of_nat D * of_nat (N div D) + of_nat (N mod D)"
    by (simp only: of_nat_add of_nat_mult)
  have "1 \<le> N mod D" using assms(2) by simp
  then have "(of_nat 1 :: rat) \<le> of_nat (N mod D)"
    by (simp only: of_nat_le_iff)
  then have lo: "1 \<le> (of_nat (N mod D) :: rat)"
    by simp
  have "N mod D < D" using assms(1) by simp
  then have "N mod D + 1 \<le> D" by simp
  then have "(of_nat (N mod D + 1) :: rat) \<le> of_nat D"
    by (simp only: of_nat_le_iff)
  then have hi: "(of_nat (N mod D) :: rat) \<le> of_nat D - 1"
    by simp
  have eq: "(of_nat N / of_nat D :: rat) = of_nat (N div D) + of_nat (N mod D) / of_nat D"
    using D by (simp add: N add_divide_distrib)
  show "of_int (int (N div D)) + 1 / of_nat D \<le> (of_nat N / of_nat D :: rat)"
    using D lo by (simp add: eq divide_right_mono)
  have "(of_nat (N mod D) :: rat) / of_nat D \<le> (of_nat D - 1) / of_nat D"
    using D hi by (intro divide_right_mono) simp_all
  also have "\<dots> = 1 - 1 / of_nat D"
    using D by (simp add: diff_divide_distrib)
  finally show "(of_nat N / of_nat D :: rat) \<le> of_int (int (N div D)) + 1 - 1 / of_nat D"
    by (simp add: eq)
qed

lemma win_rate_exact:
  assumes "w \<le> t" and "0 < t" and "t < 2 ^ 40" and "(2000 * w + t) mod (2 * t) \<noteq> 0"
  shows "toFixed1 (dbl (dbl (of_nat w / of_nat t) * 100)) = spec_win_rate w t"
proof (cases "w = 0")
  case True
  then show ?thesis
    by (simp add: spec_win_rate_def spec_round_half_away_def toFixed1_def dbl_def)
next
  case False
  then have w: "0 < w" by simp
  let ?e = "of_nat w / of_nat t * 100 :: rat"
  let ?x = "dbl (dbl (of_nat w / of_nat t) * 100)"
  let ?N = "2000 * w + t" and ?D = "2 * t"
  have t: "0 < (of_nat t :: rat)" using assms(2) by simp
  have D: "0 < ?D" using assms(2) by simp
  have x0: "0 \<le> ?x" and err: "\<bar>?x - ?e\<bar> \<le> 164 / 2 ^ 53"
    using win_rate_error [OF w assms(1)] by simp_all
  have e0: "0 \<le> ?e" by simp
  have frac: "?e * 10 + 1 / 2 = of_nat ?N / of_nat ?D"
    using t by (simp add: field_simps)
  have lo: "of_int (int (?N div ?D)) + 1 / of_nat ?D \<le> ?e * 10 + 1 / 2"
    and hi: "?e * 10 + 1 / 2 \<le> of_int (int (?N div ?D)) + 1 - 1 / of_nat ?D"
    unfolding frac using fraction_between [OF D assms(4)] by simp_all
  have "(of_nat t :: rat) < of_nat (2 ^ 40)"
    using assms(3) by (simp only: of_nat_less_iff)
  then have "(of_nat ?D :: rat) < 2 ^ 41"
    by simp
  then have "1 / 2 ^ 41 < 1 / (of_nat ?D :: rat)"
    using t by (intro divide_strict_left_mono) simp_all
  moreover have "\<bar>(?x * 10 + 1 / 2) - (?e * 10 + 1 / 2)\<bar> = \<bar>?x - ?e\<bar> * 10"
  proof -
    have "(?x * 10 + 1 / 2) - (?e * 10 + 1 / 2) = ?x * 10 - ?e * 10"
      by (simp only: add_diff_cancel_right')
    moreover have "\<bar>?x * 10 - ?e * 10\<bar> = \<bar>?x - ?e\<bar> * 10"
      by (rule abs_scale) simp
    ultimately show ?thesis by (simp only:)
  qed
  moreover have "\<bar>?x - ?e\<bar> * 10 \<le> 1640 / 2 ^ 53"
    using err by simp
  moreover have "(1640 :: rat) / 2 ^ 53 < 1 / 2 ^ 41"
    by simp
  ultimately have close: "\<bar>(?x * 10 + 1 / 2) - (?e * 10 + 1 / 2)\<bar> < 1 / of_nat ?D"
    by linarith
  have "\<lfloor>?x * 10 + 1 / 2\<rfloor> = int (?N div ?D)"
    using lo hi close by (rule floor_stable)
  moreover have "\<lfloor>?e * 10 + 1 / 2\<rfloor> = int (?N div ?D)"
  proof (rule floor_unique)
    have pos: "0 < 1 / (of_nat ?D :: rat)" using D by simp
    then show "of_int (int (?N div ?D)) \<le> ?e * 10 + 1 / 2"
      using lo by linarith
    from pos show "?e * 10 + 1 / 2 < of_int (int (?N div ?D)) + 1"
      using hi by linarith
  qed
  ultimately show ?thesis
    using x0 e0 by (simp add: toFixed1_nonneg spec_win_rate_def spec_round_half_away_nonneg)
qed


section \<open>Leaderboard: rows and order\<close>

text \<open>
  C3, as the code has it. The rows are keyed by the text of \<open>leadOwner\<close> before its
  first \<open>@\<close>, not by \<open>leadOwner\<close>. Every row belongs to an owner key that occurs, and
  for every occurring owner key that is not an inherited property name there is exactly
  one row: its lead count is the number of leads with that key, its pipeline value the
  double-precision sum of their expected values, added from 0 in input order whatever
  their status, its won count the number of them with status Won.
\<close>

theorem teamData_rows:
  "(\<forall>k \<in> owner_key ` set ls. k \<notin> set Object_prototype_keys \<longrightarrow>
      filter (\<lambda>r. team_name r = k) (teamData ls) =
        [\<lparr>team_name = k,
          team_leads = length (filter (\<lambda>l. owner_key l = k) ls),
          team_revenue = num_sum (map expectedValue (filter (\<lambda>l. owner_key l = k) ls)),
          team_won = length (filter (\<lambda>l. owner_key l = k \<and> status l = Status_Won) ls)\<rparr>])
   \<and> team_name ` set (teamData ls) \<subseteq> owner_key ` set ls"
  using teamData_row [of _ ls] teamData_names [of ls] by blast

theorem teamData_rows_witness:
  "filter (\<lambda>r. team_name r = ''asha'') (teamData merged_owner_leads) =
     [\<lparr>team_name = ''asha'', team_leads = 2, team_revenue = Finite 300, team_won = 1\<rparr>]"
proof -
  have total: "num_sum [Finite 100, Finite 200] = Finite 300"
    by code_simp
  show ?thesis
    using teamData_rows [of merged_owner_leads]
    by (simp add: merged_owner_leads_def sample_lead_def score_example_lead_def owner_key_def
        Object_prototype_keys_def total)
qed

text \<open>
  Two leads of two different owners, \<open>asha@north.example\<close> and \<open>asha@south.example\<close>,
  share one row with lead count 2; a lead owned by \<open>constructor@north.example\<close> gets no
  row.
\<close>

theorem teamData_merges_owners:
  "leadOwner (merged_owner_leads ! 0) \<noteq> leadOwner (merged_owner_leads ! 1)
   \<and> teamData merged_owner_leads =
       [\<lparr>team_name = ''asha'', team_leads = 2, team_revenue = Finite 300, team_won = 1\<rparr>]
   \<and> teamData [sample_lead ''constructor@north.example'' Source_Website Status_Open 1000 100 []] = []"
  by code_simp

text \<open>
  C8, as the code has it. For leads whose expected values are finite numbers, the rows are
  in descending order of pipeline value, and among the rows whose owner key is not an
  array index, those of equal pipeline value are in the order in which their keys first
  occur in the input. Where a row whose key is an array index stands among rows of equal
  pipeline value is left open.
\<close>

theorem teamData_order:
  "(\<forall>l \<in> set ls. is_finite (expectedValue l)) \<longrightarrow>
     sorted_wrt (\<lambda>a b. num_le (team_revenue b) (team_revenue a)) (teamData ls)
     \<and> (\<forall>v. map team_name
               (filter (\<lambda>r. \<not> is_array_index (team_name r) \<and> team_revenue r = v) (teamData ls)) =
             filter (\<lambda>k. \<not> is_array_index k
                         \<and> num_sum (map expectedValue (filter (\<lambda>l. owner_key l = k) ls)) = v)
               (group_keys owner_key ls))"
  using teamData_sorted [of ls] teamData_ties [of _ ls] by blast

theorem teamData_order_witness:
  "map team_name
     (filter (\<lambda>r. \<not> is_array_index (team_name r) \<and> team_revenue r = Finite 200)
        (teamData ordered_owner_leads))
     = [''meera'', ''kiran'']
   \<and> map (\<lambda>r. (team_name r, team_revenue r)) (teamData ordered_owner_leads)
     = [(''ravi'', Finite 300), (''meera'', Finite 200), (''kiran'', Finite 200)]
   \<and> sorted_wrt (\<lambda>a b. num_le (team_revenue b) (team_revenue a)) (teamData ordered_owner_leads)"
proof -
  have finite: "\<forall>l \<in> set ordered_owner_leads. is_finite (expectedValue l)"
    by (simp add: ordered_owner_leads_def sample_lead_def)
  have rows: "map (\<lambda>r. (team_name r, team_revenue r)) (teamData ordered_owner_leads)
     = [(''ravi'', Finite 300), (''meera'', Finite 200), (''kiran'', Finite 200)]"
    by code_simp
  have sorted: "sorted_wrt (\<lambda>a b. num_le (team_revenue b) (team_revenue a))
      (teamData ordered_owner_leads)"
    using teamData_order [of ordered_owner_leads] finite by blast
  have "map team_name
          (filter (\<lambda>r. \<not> is_array_index (team_name r) \<and> team_revenue r = Finite 200)
             (teamData ordered_owner_leads))
      = filter (\<lambda>k. \<not> is_array_index k
                   \<and> num_sum (map expectedValue
                        (filter (\<lambda>l. owner_key l = k) ordered_owner_leads)) = Finite 200)
          (group_keys owner_key ordered_owner_leads)"
    using teamData_order [of ordered_owner_leads] finite by blast
  also have "\<dots> = [''meera'', ''kiran'']"
    by code_simp
  finally show ?thesis using rows sorted by simp
qed

text \<open>
  Two owners with the same pipeline value: \<open>ravi@apex.example\<close> occurs first, but the
  row of \<open>1001@apex.example\<close>, whose key is an array index, comes first.
\<close>

theorem teamData_tie_order:
  "map owner_key tied_owner_leads = [''ravi'', ''1001'']
   \<and> teamData tied_owner_leads =
       [\<lparr>team_name = ''1001'', team_leads = 1, team_revenue = Finite 100, team_won = 0\<rparr>,
        \<lparr>team_name = ''ravi'', team_leads = 1, team_revenue = Finite 100, team_won = 0\<rparr>]"
  by code_simp


section \<open>Funnel\<close>

text \<open>
  C5. The funnel has exactly 5 rows, for New, Contacted, Qualified, Proposal and Won in
  this order; each row counts the leads in that stage (0 if there is none) and no row
  counts a lead in stage Lost. So the counts add up to at most the number of leads, and to
  exactly that number if and only if no lead is in stage Lost.
\<close>

theorem funnelData_shape:
  "map (\<lambda>r. (funnel_name r, funnel_value r)) (funnelData ls) =
     map (\<lambda>s. (s, length (filter (\<lambda>l. stage l = s) ls)))
       [Stage_New, Stage_Contacted, Stage_Qualified, Stage_Proposal, Stage_Won]
   \<and> length (funnelData ls) = 5
   \<and> sum_list (map funnel_value (funnelData ls)) \<le> length ls
   \<and> (sum_list (map funnel_value (funnelData ls)) = length ls
        \<longleftrightarrow> (\<forall>l \<in> set ls. stage l \<noteq> Stage_Lost))"
proof -
  have len: "length (funnelData ls) = 5"
    by (simp add: funnelData_def stageOrder_def)
  have "(sum_list (map funnel_value (funnelData ls)) = length ls)
        \<longleftrightarrow> length (filter (\<lambda>l. stage l = Stage_Lost) ls) = 0"
    using funnelData_sum [of ls] by linarith
  then have eq: "(sum_list (map funnel_value (funnelData ls)) = length ls)
        \<longleftrightarrow> (\<forall>l \<in> set ls. stage l \<noteq> Stage_Lost)"
    by (simp add: filter_empty_conv)
  have le: "sum_list (map funnel_value (funnelData ls)) \<le> length ls"
    using funnelData_sum [of ls] by linarith
  show ?thesis
    using funnelData_rows [of ls] len le eq by blast
qed

theorem funnelData_shape_witness:
  "map (\<lambda>r. (funnel_name r, funnel_value r)) (funnelData lost_stage_leads) =
     [(Stage_New, 0), (Stage_Contacted, 1), (Stage_Qualified, 0), (Stage_Proposal, 0), (Stage_Won, 1)]
   \<and> sum_list (map funnel_value (funnelData lost_stage_leads)) < length lost_stage_leads
   \<and> sum_list (map funnel_value (funnelData ordered_owner_leads)) = length ordered_owner_leads"
proof -
  have lost: "\<not> (\<forall>l \<in> set lost_stage_leads. stage l \<noteq> Stage_Lost)"
    by (simp add: lost_stage_leads_def sample_lead_def)
  have none: "\<forall>l \<in> set ordered_owner_leads. stage l \<noteq> Stage_Lost"
    by (simp add: ordered_owner_leads_def sample_lead_def)
  have "sum_list (map funnel_value (funnelData lost_stage_leads)) \<noteq> length lost_stage_leads"
    using funnelData_shape [of lost_stage_leads] lost by blast
  moreover have "sum_list (map funnel_value (funnelData lost_stage_leads)) \<le> length lost_stage_leads"
    using funnelData_shape [of lost_stage_leads] by blast
  moreover have "sum_list (map funnel_value (funnelData ordered_owner_leads)) = length ordered_owner_leads"
    using funnelData_shape [of ordered_owner_leads] none by blast
  moreover have "map (\<lambda>r. (funnel_name r, funnel_value r)) (funnelData lost_stage_leads) =
     [(Stage_New, 0), (Stage_Contacted, 1), (Stage_Qualified, 0), (Stage_Proposal, 0), (Stage_Won, 1)]"
    using funnelData_shape [of lost_stage_leads]
    by (simp add: lost_stage_leads_def sample_lead_def)
  ultimately show ?thesis by linarith
qed


section \<open>Revenue trend\<close>

text \<open>
  C6, as the code has it. The leads are grouped by the key made of the year, a minus sign
  and the month padded to two digits (March 2024 gives \<open>2024-03\<close>; different months
  give different keys). The rows are in strictly ascending order of the key, so there is
  one row per key, and the keys are those of the leads. The row of a key has as expected
  total the double-precision sum of the expected values of all leads of that key, added
  from 0 in input order, and as closed total the like sum of the deal values of those with
  status Won; a key with no Won lead still has a row, with closed total 0.
\<close>

theorem revenueData_rows:
  "sorted_wrt (<) (map rev_name (revenueData new_Date ls))
   \<and> rev_name ` set (revenueData new_Date ls) = rev_key new_Date ` set ls
   \<and> (\<forall>k \<in> rev_key new_Date ` set ls.
        filter (\<lambda>r. rev_name r = k) (revenueData new_Date ls) =
          [\<lparr>rev_name = k,
            rev_expected = num_sum (map expectedValue (filter (\<lambda>l. rev_key new_Date l = k) ls)),
            rev_closed = num_sum (map dealValue
              (filter (\<lambda>l. rev_key new_Date l = k \<and> status l = Status_Won) ls))\<rparr>])
   \<and> (\<forall>k \<in> rev_key new_Date ` set ls.
        (\<forall>l \<in> set ls. rev_key new_Date l = k \<longrightarrow> status l \<noteq> Status_Won) \<longrightarrow>
        (\<exists>r \<in> set (revenueData new_Date ls). rev_name r = k \<and> rev_closed r = Finite 0))
   \<and> rev_key new_Date l = month_key (new_Date (createdAt l))
   \<and> month_key (LocalDate 2024 2) = ''2024-03''
   \<and> (valid_date d \<and> valid_date d' \<and> d \<noteq> d' \<longrightarrow> month_key d \<noteq> month_key d')"
proof -
  have example: "month_key (LocalDate 2024 2) = ''2024-03''"
    by (simp add: month_key_def String_int_def padStart2_def String_nat.simps)
  have apart: "valid_date d \<and> valid_date d' \<and> d \<noteq> d' \<longrightarrow> month_key d \<noteq> month_key d'"
    using month_key_inj [of d d'] by blast
  have key: "rev_key new_Date l = month_key (new_Date (createdAt l))"
    by (simp add: rev_key_def)
  show ?thesis
    using revenueData_ascending [of new_Date ls] revenueData_names [of new_Date ls]
      revenueData_row [of _ new_Date ls] revenueData_no_won [of _ new_Date ls] example apart key
    by blast
qed

theorem revenueData_rows_witness:
  "filter (\<lambda>r. rev_name r = ''2024-03'') (revenueData sample_new_Date revenue_leads) =
     [\<lparr>rev_name = ''2024-03'', rev_expected = Finite 150, rev_closed = Finite 100\<rparr>]
   \<and> filter (\<lambda>r. rev_name r = ''2023-11'') (revenueData sample_new_Date revenue_leads) =
     [\<lparr>rev_name = ''2023-11'', rev_expected = Finite 70, rev_closed = Finite 0\<rparr>]
   \<and> month_key (LocalDate 2024 2) \<noteq> month_key (LocalDate 2023 10)"
proof -
  have dates: "valid_date (LocalDate 2024 2) \<and> valid_date (LocalDate 2023 10)
      \<and> LocalDate 2024 2 \<noteq> LocalDate 2023 10"
    by simp
  have apart: "month_key (LocalDate 2024 2) \<noteq> month_key (LocalDate 2023 10)"
    using revenueData_rows [of sample_new_Date revenue_leads "hd revenue_leads"
        "LocalDate 2024 2" "LocalDate 2023 10"] dates
    by blast
  note defs = rev_key_def revenue_leads_def sample_lead_def sample_new_Date_def month_key_def
    String_int_def padStart2_def String_nat.simps
  have set_keys: "rev_key sample_new_Date ` set revenue_leads = {''2024-03'', ''2023-11''}"
    by (simp add: defs)
  have lists:
    "map expectedValue
       (filter (\<lambda>l. rev_key sample_new_Date l = ''2024-03'') revenue_leads)
     = [Finite 100, Finite 50]"
    "map dealValue
       (filter (\<lambda>l. rev_key sample_new_Date l = ''2024-03'' \<and> status l = Status_Won)
          revenue_leads) = [Finite 100]"
    "map expectedValue
       (filter (\<lambda>l. rev_key sample_new_Date l = ''2023-11'') revenue_leads) = [Finite 70]"
    "map dealValue
       (filter (\<lambda>l. rev_key sample_new_Date l = ''2023-11'' \<and> status l = Status_Won)
          revenue_leads) = []"
    by (simp_all add: defs)
  have totals:
    "num_sum [Finite 100, Finite 50] = Finite 150"
    "num_sum [Finite 100] = Finite 100"
    "num_sum [Finite 70] = Finite 70"
    "num_sum [] = Finite 0"
    by code_simp+
  have rows: "\<forall>k \<in> rev_key sample_new_Date ` set revenue_leads.
        filter (\<lambda>r. rev_name r = k) (revenueData sample_new_Date revenue_leads) =
          [\<lparr>rev_name = k,
            rev_expected = num_sum (map expectedValue
              (filter (\<lambda>l. rev_key sample_new_Date l = k) revenue_leads)),
            rev_closed = num_sum (map dealValue
              (filter (\<lambda>l. rev_key sample_new_Date l = k \<and> status l = Status_Won) revenue_leads))\<rparr>]"
    using revenueData_rows [of sample_new_Date revenue_leads] by blast
  show ?thesis
    using rows apart by (simp add: set_keys lists totals)
qed

text \<open>
  Two leads of March 2024 as the lead form creates them, with deal values 1001 and 2003:
  their expected values are 100.10000000000001 and 200.3, and the row carries
  300.40000000000003, which is above the sum of the two.
\<close>

theorem revenueData_rounds_sums:
  "map expectedValue created_leads =
     [Finite (7043911292184167 / 70368744177664), Finite (3523714864696525 / 17592186044416)]
   \<and> map rev_name (revenueData sample_new_Date created_leads) = [''2024-03'']
   \<and> map rev_expected (revenueData sample_new_Date created_leads) =
       [Finite (5284692687742567 / 17592186044416)]
   \<and> (7043911292184167 / 70368744177664 + 3523714864696525 / 17592186044416 :: rat)
       < 5284692687742567 / 17592186044416"
proof -
  note defs = rev_key_def created_leads_def created_lead_def sample_new_Date_def month_key_def
    String_int_def padStart2_def String_nat.simps
  have products:
    "num_mul (Finite 1001) (round_number (1 / 10)) = Finite (7043911292184167 / 70368744177664)"
    "num_mul (Finite 2003) (round_number (1 / 10)) = Finite (3523714864696525 / 17592186044416)"
    by code_simp+
  have evs: "map expectedValue created_leads =
     [Finite (7043911292184167 / 70368744177664), Finite (3523714864696525 / 17592186044416)]"
    by (simp add: created_leads_def created_lead_def products del: num_mul.simps)
  have keys: "rev_key sample_new_Date ` set created_leads = {''2024-03''}"
    by (simp add: defs)
  have march: "filter (\<lambda>l. rev_key sample_new_Date l = ''2024-03'') created_leads = created_leads"
    by (simp add: defs)
  have total: "num_sum [Finite (7043911292184167 / 70368744177664),
                        Finite (3523714864696525 / 17592186044416)]
      = Finite (5284692687742567 / 17592186044416)"
    by code_simp
  have "''2024-03'' \<in> rev_key sample_new_Date ` set created_leads"
    by (simp add: keys)
  then have row: "filter (\<lambda>r. rev_name r = ''2024-03'') (revenueData sample_new_Date created_leads)
      = [\<lparr>rev_name = ''2024-03'',
          rev_expected = num_sum (map expectedValue
            (filter (\<lambda>l. rev_key sample_new_Date l = ''2024-03'') created_leads)),
          rev_closed = num_sum (map dealValue
            (filter (\<lambda>l. rev_key sample_new_Date l = ''2024-03'' \<and> status l = Status_Won)
               created_leads))\<rparr>]"
    by (rule revenueData_row)
  have "\<forall>r \<in> set (revenueData sample_new_Date created_leads). rev_name r = ''2024-03''"
    using revenueData_names [of sample_new_Date created_leads] keys by auto
  then have "filter (\<lambda>r. rev_name r = ''2024-03'') (revenueData sample_new_Date created_leads)
      = revenueData sample_new_Date created_leads"
    by (simp add: filter_id_conv)
  with row have rows: "revenueData sample_new_Date created_leads
      = [\<lparr>rev_name = ''2024-03'',
          rev_expected = Finite (5284692687742567 / 17592186044416),
          rev_closed = num_sum (map dealValue
            (filter (\<lambda>l. rev_key sample_new_Date l = ''2024-03'' \<and> status l = Status_Won)
               created_leads))\<rparr>]"
    by (simp only: march evs total)
  show ?thesis
    using evs rows by simp
qed


section \<open>Conversion by source\<close>

text \<open>
  C7, as the code has it. For every source that occurs there is exactly one row; its total
  is the number of leads of that source, and its rate is the double-precision value of
  (won / total) * 100, where won counts the leads of that source with status Won, rounded
  to one decimal place by \<open>toFixed\<close>. For fewer than \<open>2 ^ 40\<close> leads of the source
  this rate is the exact percentage rounded half away from zero to one decimal place,
  unless the exact percentage lies exactly halfway between two such values. The sources of
  the rows are exactly the sources that occur. Three leads from Website with one Won give
  the rate 33.3 and the total 3.
\<close>

theorem sourceConversionData_rows:
  "(\<forall>s \<in> source ` set ls.
      filter (\<lambda>r. conv_name r = s) (sourceConversionData ls) =
        [\<lparr>conv_name = s,
          conv_rate = toFixed1 (dbl (dbl
                        (of_nat (length (filter (\<lambda>l. source l = s \<and> status l = Status_Won) ls))
                         / of_nat (length (filter (\<lambda>l. source l = s) ls))) * 100)),
          conv_total = length (filter (\<lambda>l. source l = s) ls)\<rparr>])
   \<and> (\<forall>s \<in> source ` set ls.
        length (filter (\<lambda>l. source l = s) ls) < 2 ^ 40
        \<and> \<not> rate_on_tie (length (filter (\<lambda>l. source l = s \<and> status l = Status_Won) ls))
                          (length (filter (\<lambda>l. source l = s) ls)) \<longrightarrow>
        map conv_rate (filter (\<lambda>r. conv_name r = s) (sourceConversionData ls)) =
          [spec_win_rate (length (filter (\<lambda>l. source l = s \<and> status l = Status_Won) ls))
                         (length (filter (\<lambda>l. source l = s) ls))])
   \<and> conv_name ` set (sourceConversionData ls) = source ` set ls
   \<and> sourceConversionData three_website_leads =
       [\<lparr>conv_name = Source_Website, conv_rate = 333 / 10, conv_total = 3\<rparr>]"
proof -
  have example: "sourceConversionData three_website_leads =
       [\<lparr>conv_name = Source_Website, conv_rate = 333 / 10, conv_total = 3\<rparr>]"
    by code_simp
  have exact: "map conv_rate (filter (\<lambda>r. conv_name r = s) (sourceConversionData ls)) =
          [spec_win_rate (length (filter (\<lambda>l. source l = s \<and> status l = Status_Won) ls))
                         (length (filter (\<lambda>l. source l = s) ls))]"
    if s: "s \<in> source ` set ls"
      and small: "length (filter (\<lambda>l. source l = s) ls) < 2 ^ 40"
      and off: "\<not> rate_on_tie (length (filter (\<lambda>l. source l = s \<and> status l = Status_Won) ls))
                               (length (filter (\<lambda>l. source l = s) ls))"
    for s
  proof -
    let ?w = "length (filter (\<lambda>l. source l = s \<and> status l = Status_Won) ls)"
    let ?t = "length (filter (\<lambda>l. source l = s) ls)"
    have "?w = length (filter (\<lambda>l. status l = Status_Won) (filter (\<lambda>l. source l = s) ls))"
      by (simp add: conj_commute)
    then have le: "?w \<le> ?t"
      by (simp only: length_filter_le)
    have pos: "0 < ?t"
      using s by (auto simp add: filter_empty_conv)
    have "toFixed1 (dbl (dbl (of_nat ?w / of_nat ?t) * 100)) = spec_win_rate ?w ?t"
      using le pos small off [unfolded rate_on_tie_def] by (rule win_rate_exact)
    then show ?thesis
      using sourceConversionData_row [OF s] by simp
  qed
  show ?thesis
    using sourceConversionData_row [of _ ls] sourceConversionData_names [of ls] example exact
    by blast
qed

theorem sourceConversionData_rows_witness:
  "filter (\<lambda>r. conv_name r = Source_Website) (sourceConversionData three_website_leads) =
     [\<lparr>conv_name = Source_Website, conv_rate = 333 / 10, conv_total = 3\<rparr>]
   \<and> map conv_rate
       (filter (\<lambda>r. conv_name r = Source_Website) (sourceConversionData three_website_leads))
     = [spec_win_rate 1 3]
   \<and> \<not> rate_on_tie 1 3"
proof -
  have occurs: "Source_Website \<in> source ` set three_website_leads"
    by (simp add: three_website_leads_def sample_lead_def)
  have total: "length (filter (\<lambda>l. source l = Source_Website) three_website_leads) = 3"
    by (simp add: three_website_leads_def sample_lead_def)
  have won: "length (filter (\<lambda>l. source l = Source_Website \<and> status l = Status_Won)
               three_website_leads) = 1"
    by (simp add: three_website_leads_def sample_lead_def)
  have off: "\<not> rate_on_tie 1 3"
    by (simp add: rate_on_tie_def)
  have rate: "toFixed1 (dbl (dbl (1 / 3) * 100)) = 333 / 10"
    by code_simp
  have row: "filter (\<lambda>r. conv_name r = Source_Website) (sourceConversionData three_website_leads) =
     [\<lparr>conv_name = Source_Website,
       conv_rate = toFixed1 (dbl (dbl
         (of_nat (length (filter (\<lambda>l. source l = Source_Website \<and> status l = Status_Won)
                    three_website_leads))
          / of_nat (length (filter (\<lambda>l. source l = Source_Website) three_website_leads))) * 100)),
       conv_total = length (filter (\<lambda>l. source l = Source_Website) three_website_leads)\<rparr>]"
    using sourceConversionData_rows [of three_website_leads] occurs by blast
  have "length (filter (\<lambda>l. source l = Source_Website) three_website_leads) < 2 ^ 40
      \<and> \<not> rate_on_tie
            (length (filter (\<lambda>l. source l = Source_Website \<and> status l = Status_Won)
               three_website_leads))
            (length (filter (\<lambda>l. source l = Source_Website) three_website_leads))"
    using off by (simp add: total won)
  then have "map conv_rate
       (filter (\<lambda>r. conv_name r = Source_Website) (sourceConversionData three_website_leads))
     = [spec_win_rate
          (length (filter (\<lambda>l. source l = Source_Website \<and> status l = Status_Won)
             three_website_leads))
          (length (filter (\<lambda>l. source l = Source_Website) three_website_leads))]"
    using sourceConversionData_rows [of three_website_leads] occurs by blast
  then show ?thesis
    using row off by (simp add: total won rate)
qed

text \<open>
  80 leads from Website, 23 of them Won: the exact percentage is 28.75, halfway between
  28.7 and 28.8, which rounds half away from zero to 28.8; the double-precision product
  is a little below 28.75 and the row carries 28.7.
\<close>

theorem sourceConversionData_rate_tie:
  "map conv_rate (sourceConversionData rate_tie_leads) = [287 / 10]
   \<and> map conv_total (sourceConversionData rate_tie_leads) = [80]
   \<and> spec_win_rate 23 80 = 288 / 10"
  by code_simp

end
